theory Spec2Isabelle
  imports
    Complex_Main
    "HOL-Library.Multiset"
    "HOL-Library.Char_ord"
    "HOL-Library.List_Lexorder"
    "HOL-Library.Product_Lexorder"
begin

section \<open>Data model\<close>

text \<open>
  The Go struct \<open>Schedule\<close> of \<open>main.go\<close>: one row of the SQLite table
  \<open>schedule\<close>, whose primary key is \<open>statcrew_id\<close>. Go strings are byte strings
  (\<open>string\<close> here is a list of bytes) and the scores are Go \<open>int\<close>s; they are
  modelled as unbounded integers, the tallies below never getting near 64 bits.
\<close>

record Schedule =
  StatcrewID :: string
  HomeTeam :: string
  AwayTeam :: string
  Date :: string
  Time :: string
  GameWeek :: int
  Location :: string
  HomeScore :: int
  AwayScore :: int
  Slug :: string
  GameDate :: string

section \<open>The snapshot store: the table \<open>schedule\<close>\<close>

text \<open>
  The table is the list of its rows in insertion (rowid) order. The three SQL statements
  the program issues against it:
  \<^item> \<open>DELETE FROM schedule\<close> empties it;
  \<^item> \<open>REPLACE INTO schedule ... VALUES (...)\<close> removes the row with the same primary
    key, if there is one, and appends the new row;
  \<^item> \<open>SELECT ... ORDER BY date, time\<close> sorts by the two text columns, compared
    bytewise (SQLite's default BINARY collation); rows with the same date and time
    are kept in rowid order here.
\<close>

type_synonym table = "Schedule list"

definition sql_delete_all :: "table \<Rightarrow> table" where
  "sql_delete_all t = []"

definition sql_replace :: "Schedule \<Rightarrow> table \<Rightarrow> table" where
  "sql_replace r t = filter (\<lambda>x. StatcrewID x \<noteq> StatcrewID r) t @ [r]"

definition order_by_date_time :: "table \<Rightarrow> table" where
  "order_by_date_time t = sort_key (\<lambda>r. (Date r, Time r)) t"

text \<open>
  Every call into \<open>database/sql\<close> returns an error value. Which calls of one run of
  \<open>fetchSchedule\<close> fail is an input of the model: the \<open>DELETE\<close>, the \<open>Prepare\<close> of
  the \<open>REPLACE\<close> statement, and the \<open>i\<close>-th \<open>Exec\<close> of the insert loop (counted from
  zero). A statement that fails leaves the table as it was.
\<close>

record db_faults =
  delete_fails :: bool
  prepare_fails :: bool
  exec_fails :: "nat \<Rightarrow> bool"

definition no_faults :: db_faults where
  "no_faults = \<lparr>delete_fails = False, prepare_fails = False, exec_fails = (\<lambda>i. False)\<rparr>"

section \<open>The feed client and the refresh: \<open>fetchSchedule\<close>\<close>

text \<open>
  What the HTTP round trip of \<open>fetchSchedule\<close> yields: building the request fails,
  \<open>client.Do\<close> fails, or there is a response with a status code and a body
  (\<open>None\<close> when \<open>io.ReadAll\<close> fails).
\<close>

datatype http_outcome = RequestError | DoError | Response int "string option"

text \<open>
  The loop \<open>for _, schedule := range schedules\<close>: an \<open>Exec\<close> that fails is logged
  and the loop goes on with the next record.
\<close>

fun insert_loop :: "(nat \<Rightarrow> bool) \<Rightarrow> nat \<Rightarrow> Schedule list \<Rightarrow> table \<Rightarrow> table" where
  "insert_loop fails i [] t = t"
| "insert_loop fails i (s # ss) t =
     insert_loop fails (Suc i) ss (if fails i then t else sql_replace s t)"

text \<open>
  \<open>fetchSchedule\<close>, as a function from the table before to the table after.
  \<open>unmarshal\<close> stands for \<open>json.Unmarshal\<close> into \<open>[]Schedule\<close> (\<open>None\<close> is a decoding
  error). Every early \<open>return\<close> of the source is a branch that returns the table
  as it is at that point.
\<close>

definition fetchSchedule ::
  "(string \<Rightarrow> Schedule list option) \<Rightarrow> http_outcome \<Rightarrow> db_faults \<Rightarrow> table \<Rightarrow> table" where
  "fetchSchedule unmarshal http faults t =
     (case http of
        RequestError \<Rightarrow> t
      | DoError \<Rightarrow> t
      | Response status rd \<Rightarrow>
          if status \<noteq> 200 then t
          else (case rd of
                  None \<Rightarrow> t
                | Some body \<Rightarrow>
                    if length body = 0 then t
                    else (case unmarshal body of
                            None \<Rightarrow> t
                          | Some schedules \<Rightarrow>
                              if delete_fails faults then t
                              else (let t0 = sql_delete_all t in
                                    if length schedules > 0
                                    then (if prepare_fails faults then t0
                                          else insert_loop (exec_fails faults) 0 schedules t0)
                                    else t0))))"

text \<open>
  \<open>getSchedule\<close>: the rows in the order of the query, or the internal server error
  when the query fails (\<open>query_fails\<close>).
\<close>

datatype 'a response = InternalServerError | StatusOK 'a

definition getSchedule :: "bool \<Rightarrow> table \<Rightarrow> table response" where
  "getSchedule query_fails t =
     (if query_fails then InternalServerError else StatusOK (order_by_date_time t))"

section \<open>The standings aggregator: \<open>getScoreboard\<close>\<close>

subsection \<open>Rows, games and tallies\<close>

text \<open>
  The anonymous struct of the slice \<open>games\<close>, which is also what one row of the query
  \<open>SELECT home_team, away_team, home_score, away_score ...\<close> scans into.
\<close>

record game =
  homeTeam :: string
  awayTeam :: string
  homeScore :: int
  awayScore :: int

text \<open>The value type of the Go map \<open>teamStats\<close>.\<close>

record tally =
  wins :: int
  losses :: int

text \<open>
  A Go map is a partial function; reading a key that is absent yields the zero value
  of the value type.
\<close>

definition stats_at :: "(string \<rightharpoonup> tally) \<Rightarrow> string \<Rightarrow> tally" where
  "stats_at m k = (case m k of None \<Rightarrow> \<lparr>wins = 0, losses = 0\<rparr> | Some s \<Rightarrow> s)"

text \<open>
  The query of \<open>getScoreboard\<close>: the \<open>WHERE\<close> clause, the \<open>ORDER BY\<close> and the four
  selected columns.
\<close>

definition played_row :: "Schedule \<Rightarrow> bool" where
  "played_row r = (HomeScore r > 0 \<or> AwayScore r > 0)"

definition game_of_row :: "Schedule \<Rightarrow> game" where
  "game_of_row r =
     \<lparr>homeTeam = HomeTeam r, awayTeam = AwayTeam r,
      homeScore = HomeScore r, awayScore = AwayScore r\<rparr>"

definition query_played :: "table \<Rightarrow> game list" where
  "query_played t = map game_of_row (order_by_date_time (filter played_row t))"

text \<open>
  The two assignments of a decided game, in the order of the source: the second one
  reads the map the first one has written.
\<close>

definition add_win :: "string \<Rightarrow> (string \<rightharpoonup> tally) \<Rightarrow> (string \<rightharpoonup> tally)" where
  "add_win k m = m(k \<mapsto> \<lparr>wins = wins (stats_at m k) + 1, losses = losses (stats_at m k)\<rparr>)"

definition add_loss :: "string \<Rightarrow> (string \<rightharpoonup> tally) \<Rightarrow> (string \<rightharpoonup> tally)" where
  "add_loss k m = m(k \<mapsto> \<lparr>wins = wins (stats_at m k), losses = losses (stats_at m k) + 1\<rparr>)"

definition tally_game :: "game \<Rightarrow> (string \<rightharpoonup> tally) \<Rightarrow> (string \<rightharpoonup> tally)" where
  "tally_game g m =
     (if homeScore g > awayScore g then add_loss (awayTeam g) (add_win (homeTeam g) m)
      else if awayScore g > homeScore g then add_loss (homeTeam g) (add_win (awayTeam g) m)
      else m)"

text \<open>
  The body of the loop \<open>for rows.Next()\<close>, on the pair of the slice \<open>games\<close> and the
  map \<open>teamStats\<close>, and the loop itself.
\<close>

definition scan_row :: "game list \<times> (string \<rightharpoonup> tally) \<Rightarrow> game \<Rightarrow> game list \<times> (string \<rightharpoonup> tally)" where
  "scan_row st r =
     (if homeScore r > 0 \<or> awayScore r > 0
      then (fst st @ [r], tally_game r (snd st))
      else st)"

definition scan_rows :: "game list \<Rightarrow> game list \<times> (string \<rightharpoonup> tally)" where
  "scan_rows rows = foldl scan_row ([], Map.empty) rows"

definition games_of :: "game list \<Rightarrow> game list" where
  "games_of rows = fst (scan_rows rows)"

definition teamStats_of :: "game list \<Rightarrow> (string \<rightharpoonup> tally)" where
  "teamStats_of rows = snd (scan_rows rows)"

subsection \<open>Strength of schedule and strength of victory\<close>

text \<open>The four counters of the loop over \<open>games\<close>, for one team.\<close>

record counters =
  opponentWins :: int
  opponentLosses :: int
  defeatedOpponentWins :: int
  defeatedOpponentLosses :: int

definition add_opponent :: "tally \<Rightarrow> bool \<Rightarrow> counters \<Rightarrow> counters" where
  "add_opponent opp won acc =
     (let acc1 = acc\<lparr>opponentWins := opponentWins acc + wins opp,
                     opponentLosses := opponentLosses acc + losses opp\<rparr>
      in if won
         then acc1\<lparr>defeatedOpponentWins := defeatedOpponentWins acc1 + wins opp,
                   defeatedOpponentLosses := defeatedOpponentLosses acc1 + losses opp\<rparr>
         else acc1)"

definition add_game :: "(string \<rightharpoonup> tally) \<Rightarrow> string \<Rightarrow> counters \<Rightarrow> game \<Rightarrow> counters" where
  "add_game teamStats teamName acc g =
     (if homeTeam g = teamName
      then add_opponent (stats_at teamStats (awayTeam g)) (homeScore g > awayScore g) acc
      else if awayTeam g = teamName
      then add_opponent (stats_at teamStats (homeTeam g)) (awayScore g > homeScore g) acc
      else acc)"

definition opponent_sums :: "(string \<rightharpoonup> tally) \<Rightarrow> game list \<Rightarrow> string \<Rightarrow> counters" where
  "opponent_sums teamStats games teamName =
     foldl (add_game teamStats teamName)
       \<lparr>opponentWins = 0, opponentLosses = 0,
        defeatedOpponentWins = 0, defeatedOpponentLosses = 0\<rparr> games"

text \<open>
  \<open>float64(a) / float64(a + b)\<close>, or \<open>0.0\<close> when the total is not positive. The
  operands are counts of games, far below \<open>2^53\<close>, so their conversions are exact and
  the \<open>float64\<close> result is the double nearest to the exact quotient: a function of
  that quotient, which is what the model keeps.
\<close>

definition ratio :: "int \<Rightarrow> int \<Rightarrow> rat" where
  "ratio a b = (let total = a + b in if total > 0 then of_int a / of_int total else 0)"

definition float_at :: "(string \<rightharpoonup> rat) \<Rightarrow> string \<Rightarrow> rat" where
  "float_at m k = (case m k of None \<Rightarrow> 0 | Some v \<Rightarrow> v)"

text \<open>
  The first loop \<open>for teamName := range teamStats\<close>, which fills the maps \<open>teamSoS\<close>
  and \<open>teamSoV\<close>. Go does not specify the order in which \<open>range\<close> visits the keys of
  a map, and it may differ from one loop to the next: the order is an input, the list
  \<open>ks\<close> of the keys as the loop visits them.
\<close>

definition strength_step ::
  "(string \<rightharpoonup> tally) \<Rightarrow> game list \<Rightarrow> (string \<rightharpoonup> rat) \<times> (string \<rightharpoonup> rat) \<Rightarrow> string
   \<Rightarrow> (string \<rightharpoonup> rat) \<times> (string \<rightharpoonup> rat)" where
  "strength_step teamStats games maps teamName =
     (let s = opponent_sums teamStats games teamName
      in ((fst maps)(teamName \<mapsto> ratio (opponentWins s) (opponentLosses s)),
          (snd maps)(teamName \<mapsto> ratio (defeatedOpponentWins s) (defeatedOpponentLosses s))))"

definition strength_loop ::
  "(string \<rightharpoonup> tally) \<Rightarrow> game list \<Rightarrow> string list \<Rightarrow> (string \<rightharpoonup> rat) \<times> (string \<rightharpoonup> rat)" where
  "strength_loop teamStats games ks =
     foldl (strength_step teamStats games) (Map.empty, Map.empty) ks"

definition range_order :: "(string \<rightharpoonup> 'v) \<Rightarrow> string list \<Rightarrow> bool" where
  "range_order m ks = (distinct ks \<and> set ks = dom m)"

subsection \<open>Standings, divisions and the output\<close>

record TeamStanding =
  TeamName :: string
  Division :: string
  Wins :: int
  Losses :: int
  Record :: string
  Position :: int
  SoS :: rat
  SoV :: rat

record DivisionData =
  Division :: string
  Teams :: "TeamStanding list"

text \<open>
  The map \<open>teamDivisions\<close>. The accented letters of the fourth key are the two-byte
  UTF-8 sequences \<open>C3 A9\<close> and \<open>C3 A1\<close> of the Go source.
\<close>

definition teamDivisions :: "string \<rightharpoonup> string" where
  "teamDivisions = map_of
     [(''Vienna Vikings'', ''EAST''),
      (''Prague Lions'', ''EAST''),
      (''Wroclaw Panthers'', ''EAST''),
      (''Feh'' @ [CHR 0xC3, CHR 0xA9] @ ''rv'' @ [CHR 0xC3, CHR 0xA1] @ ''r Enthroners'', ''EAST''),
      (''Fehervar Enthroners'', ''EAST''),
      (''Stuttgart Surge'', ''WEST''),
      (''Paris Musketeers'', ''WEST''),
      (''Frankfurt Galaxy'', ''WEST''),
      (''Cologne Centurions'', ''WEST''),
      (''Nordic Storm'', ''NORTH''),
      (''Rhein Fire'', ''NORTH''),
      (''Berlin Thunder'', ''NORTH''),
      (''Hamburg Sea Devils'', ''NORTH''),
      (''Munich Ravens'', ''SOUTH''),
      (''Madrid Bravos'', ''SOUTH''),
      (''Raiders Tirol'', ''SOUTH''),
      (''Helvetic Mercenaries'', ''SOUTH'')]"

definition division_of :: "string \<Rightarrow> string" where
  "division_of teamName =
     (let division = (case teamDivisions teamName of None \<Rightarrow> [] | Some d \<Rightarrow> d)
      in if division = [] then ''UNKNOWN'' else division)"

text \<open>\<open>fmt.Sprintf("%d-%d", wins, losses)\<close>: the decimal digits of a Go \<open>int\<close>.\<close>

fun digits :: "nat \<Rightarrow> string" where
  "digits n =
     (if n < 10 then [char_of (48 + n)]
      else digits (n div 10) @ [char_of (48 + n mod 10)])"

declare digits.simps [simp del]

definition sprint_d :: "int \<Rightarrow> string" where
  "sprint_d i = (if i < 0 then CHR ''-'' # digits (nat (- i)) else digits (nat i))"

definition standing_of ::
  "(string \<rightharpoonup> tally) \<Rightarrow> (string \<rightharpoonup> rat) \<Rightarrow> (string \<rightharpoonup> rat) \<Rightarrow> string \<Rightarrow> TeamStanding" where
  "standing_of teamStats teamSoS teamSoV teamName =
     (let stats = stats_at teamStats teamName in
      \<lparr>TeamName = teamName,
       TeamStanding.Division = division_of teamName,
       Wins = wins stats,
       Losses = losses stats,
       Record = sprint_d (wins stats) @ ''-'' @ sprint_d (losses stats),
       Position = 0,
       SoS = float_at teamSoS teamName,
       SoV = float_at teamSoV teamName\<rparr>)"

text \<open>
  The second loop \<open>for teamName, stats := range teamStats\<close>, which appends each
  team's standing to the slice of its division in the map \<open>divisionStandings\<close>
  (\<open>append\<close> to the slice of an absent key appends to the empty slice). The keys come
  in the order \<open>ks\<close> again.
\<close>

definition slice_at :: "(string \<rightharpoonup> 'a list) \<Rightarrow> string \<Rightarrow> 'a list" where
  "slice_at m k = (case m k of None \<Rightarrow> [] | Some xs \<Rightarrow> xs)"

definition group_step ::
  "(string \<rightharpoonup> tally) \<Rightarrow> (string \<rightharpoonup> rat) \<Rightarrow> (string \<rightharpoonup> rat)
   \<Rightarrow> (string \<rightharpoonup> TeamStanding list) \<Rightarrow> string \<Rightarrow> (string \<rightharpoonup> TeamStanding list)" where
  "group_step teamStats teamSoS teamSoV divisionStandings teamName =
     (let standing = standing_of teamStats teamSoS teamSoV teamName;
          division = TeamStanding.Division standing
      in divisionStandings(division \<mapsto> slice_at divisionStandings division @ [standing]))"

definition group_loop ::
  "(string \<rightharpoonup> tally) \<Rightarrow> (string \<rightharpoonup> rat) \<Rightarrow> (string \<rightharpoonup> rat) \<Rightarrow> string list
   \<Rightarrow> (string \<rightharpoonup> TeamStanding list)" where
  "group_loop teamStats teamSoS teamSoV ks =
     foldl (group_step teamStats teamSoS teamSoV) Map.empty ks"

text \<open>The comparison function handed to \<open>sort.Slice\<close>.\<close>

definition standing_less :: "TeamStanding \<Rightarrow> TeamStanding \<Rightarrow> bool" where
  "standing_less a b = (if Wins a \<noteq> Wins b then Wins a > Wins b else Losses a < Losses b)"

text \<open>
  \<open>sort.Slice\<close> belongs to the Go standard library, not to this program: it is a
  parameter \<open>srt\<close> of the model, a function from the comparison and the slice to the
  sorted slice. \<open>sort_Slice_ok\<close> is what its documentation promises for the
  comparison above: the result is a rearrangement of the slice in which no element
  is less than an earlier one. The sort is not promised to be stable.
\<close>

type_synonym sorter = "(TeamStanding \<Rightarrow> TeamStanding \<Rightarrow> bool) \<Rightarrow> TeamStanding list \<Rightarrow> TeamStanding list"

definition sort_Slice_ok :: "sorter \<Rightarrow> bool" where
  "sort_Slice_ok srt =
     (\<forall>xs. mset (srt standing_less xs) = mset xs \<and>
           sorted_wrt (\<lambda>a b. \<not> standing_less b a) (srt standing_less xs))"

text \<open>
  What \<open>sort.Slice\<close> runs on a slice of at most twelve elements (Go 1.19 and later;
  six in earlier versions): insertion sort, which moves each element towards the front
  while it is less than its predecessor. The sorted prefix is kept reversed.
\<close>

fun insert_back :: "('a \<Rightarrow> 'a \<Rightarrow> bool) \<Rightarrow> 'a \<Rightarrow> 'a list \<Rightarrow> 'a list" where
  "insert_back lt x [] = [x]"
| "insert_back lt x (y # ys) =
     (if lt x y then y # insert_back lt x ys else x # y # ys)"

definition insertionSort :: "('a \<Rightarrow> 'a \<Rightarrow> bool) \<Rightarrow> 'a list \<Rightarrow> 'a list" where
  "insertionSort lt xs = rev (foldl (\<lambda>pre x. insert_back lt x pre) [] xs)"

text \<open>
  The loop \<open>for division := range divisionStandings\<close>: each slice is sorted and its
  elements are numbered from one. The iterations touch different slices, so their
  order does not matter.
\<close>

definition set_positions :: "TeamStanding list \<Rightarrow> TeamStanding list" where
  "set_positions xs = map (\<lambda>(i, s). s\<lparr>Position := int i + 1\<rparr>) (enumerate 0 xs)"

definition rank_divisions ::
  "sorter \<Rightarrow> (string \<rightharpoonup> TeamStanding list) \<Rightarrow> (string \<rightharpoonup> TeamStanding list)" where
  "rank_divisions srt divisionStandings =
     (\<lambda>division. map_option (\<lambda>xs. set_positions (srt standing_less xs))
                    (divisionStandings division))"

text \<open>The final loop over the fixed list of divisions.\<close>

definition divisions :: "string list" where
  "divisions = [''EAST'', ''WEST'', ''NORTH'', ''SOUTH'']"

definition emit_step ::
  "(string \<rightharpoonup> TeamStanding list) \<Rightarrow> DivisionData list \<Rightarrow> string \<Rightarrow> DivisionData list" where
  "emit_step divisionStandings standings division =
     (case divisionStandings division of
        Some teams \<Rightarrow> standings @ [\<lparr>DivisionData.Division = division, Teams = teams\<rparr>]
      | None \<Rightarrow> standings)"

definition emit :: "(string \<rightharpoonup> TeamStanding list) \<Rightarrow> DivisionData list" where
  "emit divisionStandings = foldl (emit_step divisionStandings) [] divisions"

text \<open>
  The computation of \<open>getScoreboard\<close> from the rows of its query to the value it
  hands to the renderer, and the handler itself. \<open>ks1\<close> and \<open>ks2\<close> are the orders in
  which the two loops over \<open>teamStats\<close> visit its keys.
\<close>

definition standings :: "sorter \<Rightarrow> string list \<Rightarrow> string list \<Rightarrow> game list \<Rightarrow> DivisionData list" where
  "standings srt ks1 ks2 rows =
     (let games = games_of rows;
          teamStats = teamStats_of rows;
          maps = strength_loop teamStats games ks1;
          divisionStandings = group_loop teamStats (fst maps) (snd maps) ks2
      in emit (rank_divisions srt divisionStandings))"

definition getScoreboard ::
  "sorter \<Rightarrow> string list \<Rightarrow> string list \<Rightarrow> bool \<Rightarrow> table \<Rightarrow> DivisionData list response" where
  "getScoreboard srt ks1 ks2 query_fails t =
     (if query_fails then InternalServerError
      else StatusOK (standings srt ks1 ks2 (query_played t)))"

subsection \<open>Derived notions\<close>

text \<open>
  The games the loop over \<open>games\<close> counts as victories of a team: of the two branches
  \<open>game.homeTeam == teamName\<close> and \<open>game.awayTeam == teamName\<close> the first that
  matches decides.
\<close>

definition counted_win :: "string \<Rightarrow> game \<Rightarrow> bool" where
  "counted_win t g =
     (if homeTeam g = t then homeScore g > awayScore g
      else awayTeam g = t \<and> awayScore g > homeScore g)"

text \<open>
  The slice of one division as \<open>getScoreboard\<close> emits it: the standings of the
  division's teams, in the order the second loop met them, sorted and numbered.
\<close>

definition division_teams ::
  "sorter \<Rightarrow> string list \<Rightarrow> string list \<Rightarrow> game list \<Rightarrow> string \<Rightarrow> TeamStanding list" where
  "division_teams srt ks1 ks2 rows d =
     set_positions (srt standing_less
       (map (standing_of (teamStats_of rows)
               (fst (strength_loop (teamStats_of rows) (games_of rows) ks1))
               (snd (strength_loop (teamStats_of rows) (games_of rows) ks1)))
            (filter (\<lambda>k. division_of k = d) ks2)))"

text \<open>
  The comparison of \<open>sort.Slice\<close> orders the standings by the pair of the negated
  wins and the losses; \<open>unranked\<close> forgets the position of a standing.
\<close>

definition rank_key :: "TeamStanding \<Rightarrow> int \<times> int" where
  "rank_key s = (- Wins s, Losses s)"

definition unranked :: "TeamStanding \<Rightarrow> TeamStanding" where
  "unranked s = s\<lparr>Position := 0\<rparr>"

text \<open>
  What the emitted slices of one division in two calls of \<open>getScoreboard\<close> have in
  common when the calls differ only in the orders in which Go visits the keys of
  \<open>teamStats\<close>: the division, the standings apart from their positions, the sequence
  of wins, losses and positions, and every standing of a team that shares its wins
  and losses with no other team of the division.
\<close>

definition same_up_to_ties :: "DivisionData \<Rightarrow> DivisionData \<Rightarrow> bool" where
  "same_up_to_ties dd dd' =
     (DivisionData.Division dd = DivisionData.Division dd' \<and>
      mset (map unranked (Teams dd)) = mset (map unranked (Teams dd')) \<and>
      map (\<lambda>s. (Wins s, Losses s, Position s)) (Teams dd) =
        map (\<lambda>s. (Wins s, Losses s, Position s)) (Teams dd') \<and>
      (\<forall>s\<in>set (Teams dd).
         (\<forall>s'\<in>set (Teams dd). Wins s' = Wins s \<and> Losses s' = Losses s \<longrightarrow> s' = s)
           \<longrightarrow> s \<in> set (Teams dd')))"

section \<open>The specification's words\<close>

text \<open>
  The notions the specification states the standings with, written from its words
  and independent of the loops above: a game is played when one of its scores is
  positive; a team wins a game when it is the side with the higher score, and loses
  it when it is the side with the lower one; a team's opponent in a game is the other
  side.
\<close>

definition played :: "game \<Rightarrow> bool" where
  "played g = (homeScore g > 0 \<or> awayScore g > 0)"

definition won_by :: "string \<Rightarrow> game \<Rightarrow> bool" where
  "won_by t g =
     ((homeTeam g = t \<and> homeScore g > awayScore g) \<or>
      (awayTeam g = t \<and> awayScore g > homeScore g))"

definition lost_by :: "string \<Rightarrow> game \<Rightarrow> bool" where
  "lost_by t g =
     ((homeTeam g = t \<and> homeScore g < awayScore g) \<or>
      (awayTeam g = t \<and> awayScore g < homeScore g))"

definition plays_in :: "string \<Rightarrow> game \<Rightarrow> bool" where
  "plays_in t g = (homeTeam g = t \<or> awayTeam g = t)"

definition opponent_in :: "string \<Rightarrow> game \<Rightarrow> string" where
  "opponent_in t g = (if homeTeam g = t then awayTeam g else homeTeam g)"

definition spec_wins :: "game list \<Rightarrow> string \<Rightarrow> int" where
  "spec_wins games t = int (length (filter (won_by t) games))"

definition spec_losses :: "game list \<Rightarrow> string \<Rightarrow> int" where
  "spec_losses games t = int (length (filter (lost_by t) games))"

text \<open>
  The ratio over a list of opponents, one entry for each game: the sum of their win
  counts over the sum of their win and loss counts, zero when the latter is zero.
\<close>

definition spec_ratio :: "game list \<Rightarrow> string list \<Rightarrow> rat" where
  "spec_ratio games opps =
     (let w = sum_list (map (spec_wins games) opps);
          n = sum_list (map (\<lambda>p. spec_wins games p + spec_losses games p) opps)
      in if n = 0 then 0 else of_int w / of_int n)"

definition spec_SoS :: "game list \<Rightarrow> string \<Rightarrow> rat" where
  "spec_SoS games t = spec_ratio games (map (opponent_in t) (filter (plays_in t) games))"

definition spec_SoV :: "game list \<Rightarrow> string \<Rightarrow> rat" where
  "spec_SoV games t =
     (if spec_wins games t = 0 then 0
      else spec_ratio games (map (opponent_in t) (filter (won_by t) games)))"

text \<open>
  The played games of a table: its records with a positive home or away score, as
  games.
\<close>

definition played_games :: "table \<Rightarrow> game list" where
  "played_games t = map game_of_row (filter (\<lambda>r. HomeScore r > 0 \<or> AwayScore r > 0) t)"

section \<open>Concrete snapshots\<close>

text \<open>Rows and games on which the theorems below are instantiated.\<close>

definition row1 :: Schedule where
  "row1 = \<lparr>StatcrewID = ''g1'', HomeTeam = ''Vienna Vikings'', AwayTeam = ''Prague Lions'',
     Date = ''2025-05-17'', Time = ''15:00'', GameWeek = 1, Location = ''Vienna'',
     HomeScore = 10, AwayScore = 0, Slug = ''g1'', GameDate = ''2025-05-17T15:00:00''\<rparr>"

definition row2 :: Schedule where
  "row2 = \<lparr>StatcrewID = ''g2'', HomeTeam = ''Rhein Fire'', AwayTeam = ''Berlin Thunder'',
     Date = ''2025-05-18'', Time = ''13:00'', GameWeek = 1, Location = ''Duisburg'',
     HomeScore = 0, AwayScore = 0, Slug = ''g2'', GameDate = ''2025-05-18T13:00:00''\<rparr>"

definition gA :: game where
  "gA = \<lparr>homeTeam = ''Vienna Vikings'', awayTeam = ''Prague Lions'', homeScore = 10, awayScore = 0\<rparr>"

definition gB :: game where
  "gB = \<lparr>homeTeam = ''Wroclaw Panthers'', awayTeam = ''Rhein Fire'', homeScore = 7, awayScore = 3\<rparr>"

definition gT :: game where
  "gT = \<lparr>homeTeam = ''Munich Ravens'', awayTeam = ''Madrid Bravos'', homeScore = 14, awayScore = 14\<rparr>"

definition gZ :: game where
  "gZ = \<lparr>homeTeam = ''Rhein Fire'', awayTeam = ''Berlin Thunder'', homeScore = 0, awayScore = 0\<rparr>"

definition rowU :: Schedule where
  "rowU = \<lparr>StatcrewID = ''g3'', HomeTeam = ''Manchester United'', AwayTeam = ''Liverpool'',
     Date = ''2025-05-24'', Time = ''20:00'', GameWeek = 2, Location = ''Manchester'',
     HomeScore = 2, AwayScore = 1, Slug = ''g3'', GameDate = ''2025-05-24T20:00:00''\<rparr>"

text \<open>Two orders in which \<open>range\<close> may visit the teams of \<open>gA\<close> and \<open>gB\<close>.\<close>

definition ksAB :: "string list" where
  "ksAB = [''Vienna Vikings'', ''Prague Lions'', ''Wroclaw Panthers'', ''Rhein Fire'']"

definition ksBA :: "string list" where
  "ksBA = [''Wroclaw Panthers'', ''Vienna Vikings'', ''Prague Lions'', ''Rhein Fire'']"

definition gC :: game where
  "gC = \<lparr>homeTeam = ''Prague Lions'', awayTeam = ''Wroclaw Panthers'', homeScore = 7, awayScore = 3\<rparr>"

definition gD :: game where
  "gD = \<lparr>homeTeam = ''Wroclaw Panthers'', awayTeam = ''Vienna Vikings'', homeScore = 14, awayScore = 10\<rparr>"

definition rowB :: Schedule where
  "rowB = \<lparr>StatcrewID = ''g4'', HomeTeam = ''Wroclaw Panthers'', AwayTeam = ''Rhein Fire'',
     Date = ''2025-05-18'', Time = ''16:25'', GameWeek = 1, Location = ''Wroclaw'',
     HomeScore = 7, AwayScore = 3, Slug = ''g4'', GameDate = ''2025-05-18T16:25:00''\<rparr>"

definition ksA :: "string list" where
  "ksA = [''Prague Lions'', ''Vienna Vikings'']"

definition ksACD :: "string list" where
  "ksACD = [''Wroclaw Panthers'', ''Vienna Vikings'', ''Prague Lions'']"

definition ksU :: "string list" where
  "ksU = [''Manchester United'', ''Liverpool'']"

text \<open>A row with the same team on both sides, the away score the higher.\<close>

definition gS :: game where
  "gS = \<lparr>homeTeam = ''Vienna Vikings'', awayTeam = ''Vienna Vikings'', homeScore = 1, awayScore = 3\<rparr>"

definition ksS :: "string list" where
  "ksS = [''Vienna Vikings'']"

section \<open>The scan of the rows\<close>

lemma foldl_scan_row:
  "foldl scan_row (gs, m) rows =
     (gs @ filter played rows, foldl (\<lambda>m g. tally_game g m) m (filter played rows))"
  by (induction rows arbitrary: gs m) (simp_all add: scan_row_def played_def)

lemma games_of_eq: "games_of rows = filter played rows"
  by (simp add: games_of_def scan_rows_def foldl_scan_row)

lemma teamStats_of_eq:
  "teamStats_of rows = foldl (\<lambda>m g. tally_game g m) Map.empty (filter played rows)"
  by (simp add: teamStats_of_def scan_rows_def foldl_scan_row)

lemma wins_tally_game:
  "wins (stats_at (tally_game g m) t) = wins (stats_at m t) + (if won_by t g then 1 else 0)"
  by (auto simp: tally_game_def add_win_def add_loss_def stats_at_def won_by_def)

lemma losses_tally_game:
  "losses (stats_at (tally_game g m) t) = losses (stats_at m t) + (if lost_by t g then 1 else 0)"
  by (auto simp: tally_game_def add_win_def add_loss_def stats_at_def lost_by_def)

lemma wins_foldl_tally:
  "wins (stats_at (foldl (\<lambda>m g. tally_game g m) m gs) t) =
     wins (stats_at m t) + int (length (filter (won_by t) gs))"
  by (induction gs arbitrary: m) (simp_all add: wins_tally_game)

lemma losses_foldl_tally:
  "losses (stats_at (foldl (\<lambda>m g. tally_game g m) m gs) t) =
     losses (stats_at m t) + int (length (filter (lost_by t) gs))"
  by (induction gs arbitrary: m) (simp_all add: losses_tally_game)

lemma stats_at_empty [simp]: "stats_at Map.empty t = \<lparr>wins = 0, losses = 0\<rparr>"
  by (simp add: stats_at_def)

lemma wins_teamStats_of:
  "wins (stats_at (teamStats_of rows) t) = spec_wins (filter played rows) t"
  unfolding teamStats_of_eq wins_foldl_tally spec_wins_def by simp

lemma losses_teamStats_of:
  "losses (stats_at (teamStats_of rows) t) = spec_losses (filter played rows) t"
  unfolding teamStats_of_eq losses_foldl_tally spec_losses_def by simp

lemma dom_tally_game:
  "dom (tally_game g m) =
     dom m \<union> (if homeScore g \<noteq> awayScore g then {homeTeam g, awayTeam g} else {})"
  by (auto simp: tally_game_def add_win_def add_loss_def)

lemma dom_foldl_tally:
  "dom (foldl (\<lambda>m g. tally_game g m) m gs) =
     dom m \<union> {t. \<exists>g\<in>set gs. homeScore g \<noteq> awayScore g \<and> plays_in t g}"
  by (induction gs arbitrary: m) (auto simp: dom_tally_game plays_in_def)

lemma dom_teamStats_of:
  "dom (teamStats_of rows) =
     {t. \<exists>g\<in>set rows. played g \<and> homeScore g \<noteq> awayScore g \<and> plays_in t g}"
  by (auto simp: teamStats_of_eq dom_foldl_tally)

lemma scan_rows_filter_played: "scan_rows (filter played rows) = scan_rows rows"
  by (simp add: scan_rows_def foldl_scan_row)

lemma played_game_of_row [simp]: "played (game_of_row r) = played_row r"
  by (simp add: played_def played_row_def game_of_row_def)

lemma query_played_all_played: "filter played (query_played t) = query_played t"
  by (simp add: query_played_def order_by_date_time_def filter_map comp_def filter_sort)

lemma query_played_filter: "query_played (filter played_row t) = query_played t"
  by (simp add: query_played_def)

section \<open>The strength loops\<close>

lemma add_game_fields:
  "opponentWins (add_game m t acc g) =
     opponentWins acc + (if plays_in t g then wins (stats_at m (opponent_in t g)) else 0)"
  "opponentLosses (add_game m t acc g) =
     opponentLosses acc + (if plays_in t g then losses (stats_at m (opponent_in t g)) else 0)"
  "defeatedOpponentWins (add_game m t acc g) =
     defeatedOpponentWins acc + (if counted_win t g then wins (stats_at m (opponent_in t g)) else 0)"
  "defeatedOpponentLosses (add_game m t acc g) =
     defeatedOpponentLosses acc + (if counted_win t g then losses (stats_at m (opponent_in t g)) else 0)"
  by (auto simp: add_game_def add_opponent_def plays_in_def opponent_in_def counted_win_def Let_def)

lemma foldl_add_game_fields:
  "opponentWins (foldl (add_game m t) acc gs) =
     opponentWins acc + sum_list (map (\<lambda>g. wins (stats_at m (opponent_in t g))) (filter (plays_in t) gs))"
  "opponentLosses (foldl (add_game m t) acc gs) =
     opponentLosses acc + sum_list (map (\<lambda>g. losses (stats_at m (opponent_in t g))) (filter (plays_in t) gs))"
  "defeatedOpponentWins (foldl (add_game m t) acc gs) =
     defeatedOpponentWins acc + sum_list (map (\<lambda>g. wins (stats_at m (opponent_in t g))) (filter (counted_win t) gs))"
  "defeatedOpponentLosses (foldl (add_game m t) acc gs) =
     defeatedOpponentLosses acc + sum_list (map (\<lambda>g. losses (stats_at m (opponent_in t g))) (filter (counted_win t) gs))"
  by (induction gs arbitrary: acc) (simp_all add: add_game_fields)

lemma opponent_sums_fields:
  "opponentWins (opponent_sums m gs t) =
     sum_list (map (\<lambda>g. wins (stats_at m (opponent_in t g))) (filter (plays_in t) gs))"
  "opponentLosses (opponent_sums m gs t) =
     sum_list (map (\<lambda>g. losses (stats_at m (opponent_in t g))) (filter (plays_in t) gs))"
  "defeatedOpponentWins (opponent_sums m gs t) =
     sum_list (map (\<lambda>g. wins (stats_at m (opponent_in t g))) (filter (counted_win t) gs))"
  "defeatedOpponentLosses (opponent_sums m gs t) =
     sum_list (map (\<lambda>g. losses (stats_at m (opponent_in t g))) (filter (counted_win t) gs))"
  by (simp_all add: opponent_sums_def foldl_add_game_fields)

lemma strength_loop_snoc:
  "strength_loop m gs (ks @ [k]) = strength_step m gs (strength_loop m gs ks) k"
  by (simp add: strength_loop_def)

lemma strength_loop_at:
  "fst (strength_loop m gs ks) t =
     (if t \<in> set ks
      then Some (ratio (opponentWins (opponent_sums m gs t)) (opponentLosses (opponent_sums m gs t)))
      else None)"
  "snd (strength_loop m gs ks) t =
     (if t \<in> set ks
      then Some (ratio (defeatedOpponentWins (opponent_sums m gs t))
                       (defeatedOpponentLosses (opponent_sums m gs t)))
      else None)"
proof (induction ks rule: rev_induct)
  case Nil
  { case 1 show ?case by (simp add: strength_loop_def) }
  { case 2 show ?case by (simp add: strength_loop_def) }
next
  case (snoc k ks)
  { case 1 show ?case using snoc.IH(1) by (simp add: strength_loop_snoc strength_step_def Let_def) }
  { case 2 show ?case using snoc.IH(2) by (simp add: strength_loop_snoc strength_step_def Let_def) }
qed

lemma sum_list_nonneg_int: "(\<And>x. x \<in> set xs \<Longrightarrow> 0 \<le> f x) \<Longrightarrow> (0::int) \<le> sum_list (map f xs)"
  by (induction xs) auto

lemma ratio_spec:
  assumes "games = filter played rows" and "m = teamStats_of rows"
  shows "ratio (sum_list (map (\<lambda>g. wins (stats_at m (opponent_in t g))) gs))
               (sum_list (map (\<lambda>g. losses (stats_at m (opponent_in t g))) gs))
         = spec_ratio games (map (opponent_in t) gs)"
proof -
  have w: "\<And>p. wins (stats_at m p) = spec_wins games p"
    and l: "\<And>p. losses (stats_at m p) = spec_losses games p"
    using assms by (simp_all add: wins_teamStats_of losses_teamStats_of)
  have s: "sum_list (map (\<lambda>p. spec_wins games p + spec_losses games p) (map (opponent_in t) gs))
      = sum_list (map (spec_wins games) (map (opponent_in t) gs))
        + sum_list (map (spec_losses games) (map (opponent_in t) gs))"
    by (simp add: sum_list_addf comp_def)
  have nn: "0 \<le> sum_list (map (\<lambda>p. spec_wins games p + spec_losses games p) (map (opponent_in t) gs))"
    by (rule sum_list_nonneg_int) (simp add: spec_wins_def spec_losses_def)
  show ?thesis
    using nn unfolding ratio_def spec_ratio_def Let_def w l s
    by (auto simp: comp_def)
qed

subsection \<open>From the table to the tallies and sums\<close>

lemma mset_query_played: "mset (query_played t) = mset (played_games t)"
  by (simp add: query_played_def played_games_def order_by_date_time_def played_row_def)

lemma games_of_query_played: "games_of (query_played t) = query_played t"
  by (simp add: games_of_eq query_played_all_played)

lemma sum_list_filter_mset_cong:
  assumes "mset xs = mset ys"
  shows "sum_list (map f (filter P xs)) = (sum_list (map f (filter P ys)) :: int)"
proof -
  have "mset (map f (filter P xs)) = mset (map f (filter P ys))"
    by (simp add: assms)
  then have "sum_mset (mset (map f (filter P xs))) = sum_mset (mset (map f (filter P ys)))"
    by (rule arg_cong)
  then show ?thesis
    by (simp only: sum_mset_sum_list)
qed

lemma length_filter_mset_cong:
  assumes "mset xs = mset ys"
  shows "length (filter P xs) = length (filter P ys)"
proof -
  have "mset (filter P xs) = mset (filter P ys)"
    by (simp add: assms)
  then show ?thesis by (rule mset_eq_length)
qed

lemma spec_wins_mset_cong: "mset xs = mset ys \<Longrightarrow> spec_wins xs k = spec_wins ys k"
  unfolding spec_wins_def by (simp only: length_filter_mset_cong [of xs ys])

lemma spec_losses_mset_cong: "mset xs = mset ys \<Longrightarrow> spec_losses xs k = spec_losses ys k"
  unfolding spec_losses_def by (simp only: length_filter_mset_cong [of xs ys])

lemma wins_query_played:
  "wins (stats_at (teamStats_of (query_played t)) k) = spec_wins (played_games t) k"
  "losses (stats_at (teamStats_of (query_played t)) k) = spec_losses (played_games t) k"
  unfolding wins_teamStats_of losses_teamStats_of query_played_all_played
  by (rule spec_wins_mset_cong [OF mset_query_played] spec_losses_mset_cong [OF mset_query_played])+

lemma opponent_sums_query_played:
  "opponentWins (opponent_sums (teamStats_of (query_played t)) (games_of (query_played t)) k) =
     sum_list (map (\<lambda>g. spec_wins (played_games t) (opponent_in k g))
                 (filter (plays_in k) (played_games t)))"
  "opponentLosses (opponent_sums (teamStats_of (query_played t)) (games_of (query_played t)) k) =
     sum_list (map (\<lambda>g. spec_losses (played_games t) (opponent_in k g))
                 (filter (plays_in k) (played_games t)))"
  "defeatedOpponentWins (opponent_sums (teamStats_of (query_played t)) (games_of (query_played t)) k) =
     sum_list (map (\<lambda>g. spec_wins (played_games t) (opponent_in k g))
                 (filter (counted_win k) (played_games t)))"
  "defeatedOpponentLosses (opponent_sums (teamStats_of (query_played t)) (games_of (query_played t)) k) =
     sum_list (map (\<lambda>g. spec_losses (played_games t) (opponent_in k g))
                 (filter (counted_win k) (played_games t)))"
  unfolding opponent_sums_fields games_of_query_played wins_query_played
  by (rule sum_list_filter_mset_cong [OF mset_query_played])+

section \<open>Grouping and output\<close>

lemma group_loop_snoc:
  "group_loop m sos sov (ks @ [k]) = group_step m sos sov (group_loop m sos sov ks) k"
  by (simp add: group_loop_def)

lemma division_standing_of [simp]:
  "TeamStanding.Division (standing_of m sos sov k) = division_of k"
  by (simp add: standing_of_def Let_def)

lemma group_loop_at:
  "group_loop m sos sov ks d =
     (if d \<in> division_of ` set ks
      then Some (map (standing_of m sos sov) (filter (\<lambda>k. division_of k = d) ks))
      else None)"
proof (induction ks rule: rev_induct)
  case Nil
  show ?case by (simp add: group_loop_def)
next
  case (snoc k ks)
  show ?case
    unfolding group_loop_snoc group_step_def Let_def division_standing_of
    using snoc.IH by (auto simp: slice_at_def image_iff filter_empty_conv eq_commute [of "division_of k"])
qed

lemma foldl_emit_step:
  "foldl (emit_step ds) acc xs =
     acc @ map (\<lambda>d. \<lparr>DivisionData.Division = d, Teams = the (ds d)\<rparr>)
             (filter (\<lambda>d. ds d \<noteq> None) xs)"
  by (induction xs arbitrary: acc) (auto simp: emit_step_def split: option.splits)

lemma emit_eq:
  "emit ds = map (\<lambda>d. \<lparr>DivisionData.Division = d, Teams = the (ds d)\<rparr>)
               (filter (\<lambda>d. ds d \<noteq> None) divisions)"
  by (simp add: emit_def foldl_emit_step)

lemma standings_eq:
  "standings srt ks1 ks2 rows =
     map (\<lambda>d. \<lparr>DivisionData.Division = d, Teams = division_teams srt ks1 ks2 rows d\<rparr>)
       (filter (\<lambda>d. d \<in> division_of ` set ks2) divisions)"
  unfolding standings_def Let_def emit_eq rank_divisions_def group_loop_at division_teams_def
  by (auto intro!: map_cong filter_cong)

section \<open>Sorting and numbering\<close>

lemma standing_less_key: "standing_less a b \<longleftrightarrow> rank_key a < rank_key b"
  by (auto simp: standing_less_def rank_key_def less_prod_def)

lemma not_standing_less_key: "\<not> standing_less b a \<longleftrightarrow> rank_key a \<le> rank_key b"
  by (simp add: standing_less_key not_less)

lemma sorted_wrt_standing_key:
  "sorted_wrt (\<lambda>a b. \<not> standing_less b a) xs \<longleftrightarrow> sorted (map rank_key xs)"
  by (simp add: not_standing_less_key sorted_map)

lemma sorted_wrt_standing_words:
  "sorted_wrt (\<lambda>a b. \<not> standing_less b a) xs \<longleftrightarrow>
   sorted_wrt (\<lambda>a b. Wins a > Wins b \<or> (Wins a = Wins b \<and> Losses a \<le> Losses b)) xs"
  by (rule arg_cong [where f = "\<lambda>R. sorted_wrt R xs"]) (auto simp: standing_less_def fun_eq_iff)

subsection \<open>Insertion sort keeps the promise of \<open>sort.Slice\<close>\<close>

lemma mset_insert_back: "mset (insert_back lt x ys) = add_mset x (mset ys)"
  by (induction ys) auto

lemma set_insert_back: "set (insert_back lt x ys) = insert x (set ys)"
  by (induction ys) auto

lemma mset_foldl_insert_back:
  "mset (foldl (\<lambda>pre x. insert_back lt x pre) acc xs) = mset acc + mset xs"
  by (induction xs arbitrary: acc) (simp_all add: mset_insert_back)

lemma mset_insertionSort: "mset (insertionSort lt xs) = mset xs"
  by (simp add: insertionSort_def mset_foldl_insert_back)

lemma sorted_insert_back:
  fixes f :: "'a \<Rightarrow> 'k::linorder"
  assumes lt: "\<And>a b. lt a b \<longleftrightarrow> f a < f b"
    and "sorted_wrt (\<lambda>a b. f b \<le> f a) ys"
  shows "sorted_wrt (\<lambda>a b. f b \<le> f a) (insert_back lt x ys)"
  using assms(2)
proof (induction ys)
  case Nil
  show ?case by simp
next
  case (Cons y ys)
  then show ?case
    by (auto simp: lt set_insert_back intro: less_imp_le order_trans)
qed

lemma sorted_foldl_insert_back:
  fixes f :: "'a \<Rightarrow> 'k::linorder"
  assumes lt: "\<And>a b. lt a b \<longleftrightarrow> f a < f b"
    and "sorted_wrt (\<lambda>a b. f b \<le> f a) acc"
  shows "sorted_wrt (\<lambda>a b. f b \<le> f a) (foldl (\<lambda>pre x. insert_back lt x pre) acc xs)"
  using assms(2)
  by (induction xs arbitrary: acc) (simp_all add: sorted_insert_back [OF lt])

lemma sorted_insertionSort:
  fixes f :: "'a \<Rightarrow> 'k::linorder"
  assumes lt: "\<And>a b. lt a b \<longleftrightarrow> f a < f b"
  shows "sorted (map f (insertionSort lt xs))"
proof -
  have "sorted_wrt (\<lambda>a b. f b \<le> f a) (foldl (\<lambda>pre x. insert_back lt x pre) [] xs)"
    by (rule sorted_foldl_insert_back [OF lt]) simp
  then show ?thesis
    by (simp add: insertionSort_def sorted_map sorted_wrt_rev)
qed

lemma sort_Slice_ok_insertionSort: "sort_Slice_ok insertionSort"
  unfolding sort_Slice_ok_def sorted_wrt_standing_key
  by (simp add: mset_insertionSort sorted_insertionSort [where f = rank_key] standing_less_key)

subsection \<open>Numbering\<close>

lemma length_set_positions [simp]: "length (set_positions xs) = length xs"
  by (simp add: set_positions_def)

lemma nth_set_positions:
  "i < length xs \<Longrightarrow> set_positions xs ! i = (xs ! i)\<lparr>Position := int i + 1\<rparr>"
  by (simp add: set_positions_def nth_enumerate_eq)

lemma map_Position_set_positions:
  "map Position (set_positions xs) = map (\<lambda>i. int i + 1) [0..<length xs]"
  by (rule nth_equalityI) (simp_all add: nth_set_positions)

lemma map_unranked_set_positions:
  "map unranked (set_positions xs) = map unranked xs"
  by (rule nth_equalityI) (simp_all add: nth_set_positions unranked_def)

lemma rank_key_unranked [simp]: "rank_key (unranked s) = rank_key s"
  by (simp add: rank_key_def unranked_def)

lemma map_rank_key_set_positions:
  "map rank_key (set_positions xs) = map rank_key xs"
proof -
  have "map rank_key (map unranked (set_positions xs)) = map rank_key (map unranked xs)"
    by (simp only: map_unranked_set_positions)
  then show ?thesis by (simp add: comp_def)
qed

lemma sorted_same_mset_keys:
  fixes f :: "'a \<Rightarrow> 'k::linorder"
  assumes "sorted (map f xs)" "sorted (map f ys)" "mset (map f xs) = mset (map f ys)"
  shows "map f xs = map f ys"
  using assms by (metis properties_for_sort)

section \<open>The emitted divisions\<close>

lemma unranked_fields [simp]:
  "TeamName (unranked s) = TeamName s"
  "TeamStanding.Division (unranked s) = TeamStanding.Division s"
  "Wins (unranked s) = Wins s"
  "Losses (unranked s) = Losses s"
  "SoS (unranked s) = SoS s"
  "SoV (unranked s) = SoV s"
  by (simp_all add: unranked_def)

lemma sort_Slice_ok_mset: "sort_Slice_ok srt \<Longrightarrow> mset (srt standing_less xs) = mset xs"
  by (simp add: sort_Slice_ok_def)

lemma sort_Slice_ok_sorted: "sort_Slice_ok srt \<Longrightarrow> sorted (map rank_key (srt standing_less xs))"
  by (simp add: sort_Slice_ok_def sorted_wrt_standing_key)

lemma mset_unranked_division_teams:
  assumes "sort_Slice_ok srt"
  shows "mset (map unranked (division_teams srt ks1 ks2 rows d)) =
         mset (map unranked
           (map (standing_of (teamStats_of rows)
               (fst (strength_loop (teamStats_of rows) (games_of rows) ks1))
               (snd (strength_loop (teamStats_of rows) (games_of rows) ks1)))
            (filter (\<lambda>k. division_of k = d) ks2)))"
  unfolding division_teams_def map_unranked_set_positions
  by (simp only: mset_map sort_Slice_ok_mset [OF assms])

lemma length_division_teams:
  assumes "sort_Slice_ok srt"
  shows "length (division_teams srt ks1 ks2 rows d) = length (filter (\<lambda>k. division_of k = d) ks2)"
  using mset_eq_length [OF sort_Slice_ok_mset [OF assms]]
  by (simp add: division_teams_def)

lemma map_succ_upt: "map (\<lambda>i. int i + 1) [0..<n] = map int [1..<n + 1]"
  by (induction n) simp_all

lemma sorted_division_teams:
  assumes "sort_Slice_ok srt"
  shows "sorted (map rank_key (division_teams srt ks1 ks2 rows d))"
  unfolding division_teams_def map_rank_key_set_positions
  by (rule sort_Slice_ok_sorted [OF assms])

lemma Position_division_teams:
  assumes "sort_Slice_ok srt"
  shows "map Position (division_teams srt ks1 ks2 rows d) =
         map int [1..<length (division_teams srt ks1 ks2 rows d) + 1]"
proof -
  have "map Position (division_teams srt ks1 ks2 rows d) =
        map (\<lambda>i. int i + 1) [0..<length (division_teams srt ks1 ks2 rows d)]"
    unfolding division_teams_def map_Position_set_positions by simp
  also have "\<dots> = map int [1..<length (division_teams srt ks1 ks2 rows d) + 1]"
    by (rule map_succ_upt)
  finally show ?thesis .
qed

lemma TeamName_standing_of [simp]: "TeamName (standing_of m sos sov k) = k"
  by (simp add: standing_of_def Let_def)

lemma TeamName_division_teams:
  assumes "sort_Slice_ok srt"
  shows "TeamName ` set (division_teams srt ks1 ks2 rows d) = {k \<in> set ks2. division_of k = d}"
proof -
  have "TeamName ` set (division_teams srt ks1 ks2 rows d) =
        TeamName ` set_mset (mset (map unranked (division_teams srt ks1 ks2 rows d)))"
    by (simp add: image_image)
  also have "\<dots> = {k \<in> set ks2. division_of k = d}"
    unfolding mset_unranked_division_teams [OF assms]
    by (auto simp: image_image)
  finally show ?thesis .
qed

lemma sorted_rank_key_words:
  "sorted (map rank_key xs) \<longleftrightarrow>
   sorted_wrt (\<lambda>a b. Wins a > Wins b \<or> (Wins a = Wins b \<and> Losses a \<le> Losses b)) xs"
  unfolding sorted_wrt_standing_key [symmetric] by (rule sorted_wrt_standing_words)

lemma set_standings:
  "set (standings srt ks1 ks2 rows) =
     (\<lambda>d. \<lparr>DivisionData.Division = d, Teams = division_teams srt ks1 ks2 rows d\<rparr>) `
       {d \<in> set divisions. d \<in> division_of ` set ks2}"
  by (auto simp: standings_eq)

lemma TeamNames_standings:
  assumes "sort_Slice_ok srt" and "range_order (teamStats_of rows) ks2"
  shows "(\<Union>dd\<in>set (standings srt ks1 ks2 rows). TeamName ` set (Teams dd)) =
         {t \<in> dom (teamStats_of rows). division_of t \<in> set divisions}"
proof -
  have ks: "set ks2 = dom (teamStats_of rows)"
    using assms(2) by (simp add: range_order_def)
  show ?thesis
    unfolding set_standings
    by (auto simp: TeamName_division_teams [OF assms(1)] ks)
qed

lemma emitted_divisions_canonical:
  "dd \<in> set (standings srt ks1 ks2 rows) \<Longrightarrow> DivisionData.Division dd \<in> set divisions"
  by (auto simp: standings_eq)

lemma SoS_standing_of [simp]:
  "SoS (standing_of m sos sov k) = float_at sos k"
  "SoV (standing_of m sos sov k) = float_at sov k"
  by (simp_all add: standing_of_def Let_def)

lemma spec_ratio_Nil [simp]: "spec_ratio games [] = 0"
  by (simp add: spec_ratio_def)

lemma spec_SoV_eq:
  "spec_SoV games t = spec_ratio games (map (opponent_in t) (filter (won_by t) games))"
  by (simp add: spec_SoV_def spec_wins_def)

lemma teamSoS_spec:
  assumes "t \<in> set ks1"
  shows "fst (strength_loop (teamStats_of rows) (games_of rows) ks1) t =
           Some (spec_SoS (filter played rows) t)"
  using assms
  by (simp add: strength_loop_at opponent_sums_fields spec_SoS_def games_of_eq
      ratio_spec [OF refl refl])

lemma counted_win_won_by:
  "(homeTeam g = t \<and> awayTeam g = t \<longrightarrow> awayScore g \<le> homeScore g) \<Longrightarrow>
   counted_win t g = won_by t g"
  by (auto simp: counted_win_def won_by_def)

lemma teamSoV_counted:
  assumes "t \<in> set ks1"
  shows "snd (strength_loop (teamStats_of rows) (games_of rows) ks1) t =
           Some (spec_ratio (filter played rows)
                   (map (opponent_in t) (filter (counted_win t) (filter played rows))))"
  using assms
  by (simp add: strength_loop_at opponent_sums_fields games_of_eq ratio_spec [OF refl refl])

lemma spec_SoV_counted:
  assumes "\<forall>g\<in>set rows. homeTeam g = t \<and> awayTeam g = t \<longrightarrow> awayScore g \<le> homeScore g"
  shows "spec_ratio (filter played rows)
           (map (opponent_in t) (filter (counted_win t) (filter played rows))) =
         spec_SoV (filter played rows) t"
proof -
  have "filter (counted_win t) (filter played rows) = filter (won_by t) (filter played rows)"
    using assms by (intro filter_cong refl) (simp add: counted_win_won_by)
  then show ?thesis
    by (simp add: spec_SoV_eq)
qed

lemma standing_in_division_teams:
  assumes "sort_Slice_ok srt" and "s \<in> set (division_teams srt ks1 ks2 rows d)"
  obtains k where "k \<in> set ks2" and "division_of k = d"
    and "unranked s = unranked (standing_of (teamStats_of rows)
               (fst (strength_loop (teamStats_of rows) (games_of rows) ks1))
               (snd (strength_loop (teamStats_of rows) (games_of rows) ks1)) k)"
proof -
  have "unranked s \<in> set_mset (mset (map unranked (division_teams srt ks1 ks2 rows d)))"
    using assms(2) by simp
  then show ?thesis
    unfolding mset_unranked_division_teams [OF assms(1)]
    using that by auto
qed

lemma unranked_restore: "(unranked a)\<lparr>Position := Position a\<rparr> = a"
  by (simp add: unranked_def)

lemma unranked_Position_eq:
  assumes "unranked a = unranked b" and "Position a = Position b"
  shows "a = b"
proof -
  have "a = (unranked a)\<lparr>Position := Position a\<rparr>"
    by (simp only: unranked_restore)
  also have "\<dots> = (unranked b)\<lparr>Position := Position b\<rparr>"
    by (simp only: assms)
  also have "\<dots> = b"
    by (simp only: unranked_restore)
  finally show ?thesis .
qed

lemma untied_same_rank:
  assumes m: "mset (map unranked X) = mset (map unranked X')"
    and k: "map (\<lambda>s. (Wins s, Losses s, Position s)) X = map (\<lambda>s. (Wins s, Losses s, Position s)) X'"
    and s: "s \<in> set X"
    and u: "\<forall>s'\<in>set X. Wins s' = Wins s \<and> Losses s' = Losses s \<longrightarrow> s' = s"
  shows "s \<in> set X'"
proof -
  have len: "length X = length X'"
    using arg_cong [OF k, of length] by simp
  have "set (map unranked X) = set (map unranked X')"
    using arg_cong [OF m, of set_mset] by simp
  then have "unranked s \<in> set (map unranked X')"
    using s by auto
  then obtain j where j: "j < length X'" and e: "unranked (X' ! j) = unranked s"
    by (auto simp: in_set_conv_nth)
  have "map (\<lambda>s. (Wins s, Losses s, Position s)) X ! j = map (\<lambda>s. (Wins s, Losses s, Position s)) X' ! j"
    by (simp only: k)
  then have kj: "Wins (X ! j) = Wins (X' ! j)" "Losses (X ! j) = Losses (X' ! j)"
    "Position (X ! j) = Position (X' ! j)"
    using j len by simp_all
  have "Wins (unranked (X' ! j)) = Wins (unranked s)" "Losses (unranked (X' ! j)) = Losses (unranked s)"
    by (simp_all only: e)
  then have "Wins (X ! j) = Wins s" "Losses (X ! j) = Losses s"
    using kj by simp_all
  moreover have "X ! j \<in> set X"
    using j len by simp
  ultimately have "X ! j = s"
    using u by blast
  then have "Position (X' ! j) = Position s"
    using kj by simp
  with e have "X' ! j = s"
    by (rule unranked_Position_eq)
  then show ?thesis
    using j nth_mem by fastforce
qed

lemma range_order_mset:
  assumes "range_order m ks" and "range_order m ks'"
  shows "mset ks = mset ks'"
  using assms by (simp add: range_order_def set_eq_iff_mset_eq_distinct [symmetric])

lemma strength_loop_range_order:
  assumes "range_order m ks" and "range_order m ks'" and "k \<in> dom m"
  shows "float_at (fst (strength_loop m gs ks)) k = float_at (fst (strength_loop m gs ks')) k"
    and "float_at (snd (strength_loop m gs ks)) k = float_at (snd (strength_loop m gs ks')) k"
  using assms by (simp_all add: range_order_def strength_loop_at float_at_def)

lemma standing_of_range_order:
  assumes "range_order m ks" and "range_order m ks'" and "k \<in> dom m"
  shows "standing_of m (fst (strength_loop m gs ks)) (snd (strength_loop m gs ks)) k =
         standing_of m (fst (strength_loop m gs ks')) (snd (strength_loop m gs ks')) k"
  unfolding standing_of_def Let_def
  by (simp only: strength_loop_range_order [OF assms])

lemma mset_division_teams_range_order:
  assumes srt: "sort_Slice_ok srt"
    and k1: "range_order (teamStats_of rows) ks1" and k2: "range_order (teamStats_of rows) ks2"
    and k1': "range_order (teamStats_of rows) ks1'" and k2': "range_order (teamStats_of rows) ks2'"
  shows "mset (map unranked (division_teams srt ks1 ks2 rows d)) =
         mset (map unranked (division_teams srt ks1' ks2' rows d))"
proof -
  let ?st = "\<lambda>ks. standing_of (teamStats_of rows)
               (fst (strength_loop (teamStats_of rows) (games_of rows) ks))
               (snd (strength_loop (teamStats_of rows) (games_of rows) ks))"
  have dom: "set ks2 = dom (teamStats_of rows)"
    using k2 by (simp add: range_order_def)
  have "mset (map (?st ks1) (filter (\<lambda>k. division_of k = d) ks2)) =
        image_mset (?st ks1) (filter_mset (\<lambda>k. division_of k = d) (mset ks2))"
    by simp
  also have "\<dots> = image_mset (?st ks1') (filter_mset (\<lambda>k. division_of k = d) (mset ks2))"
    by (rule image_mset_cong) (simp add: dom standing_of_range_order [OF k1 k1'])
  also have "\<dots> = image_mset (?st ks1') (filter_mset (\<lambda>k. division_of k = d) (mset ks2'))"
    by (simp only: range_order_mset [OF k2 k2'])
  also have "\<dots> = mset (map (?st ks1') (filter (\<lambda>k. division_of k = d) ks2'))"
    by simp
  finally have "mset (map unranked (map (?st ks1) (filter (\<lambda>k. division_of k = d) ks2))) =
      mset (map unranked (map (?st ks1') (filter (\<lambda>k. division_of k = d) ks2')))"
    by (simp only: mset_map)
  then show ?thesis
    by (simp only: mset_unranked_division_teams [OF srt])
qed

lemma keys_division_teams_range_order:
  assumes srt: "sort_Slice_ok srt"
    and m: "mset (map unranked (division_teams srt ks1 ks2 rows d)) =
         mset (map unranked (division_teams srt ks1' ks2' rows d))"
  shows "map (\<lambda>s. (Wins s, Losses s, Position s)) (division_teams srt ks1 ks2 rows d) =
         map (\<lambda>s. (Wins s, Losses s, Position s)) (division_teams srt ks1' ks2' rows d)"
proof -
  let ?X = "division_teams srt ks1 ks2 rows d" and ?X' = "division_teams srt ks1' ks2' rows d"
  have len: "length ?X = length ?X'"
    using mset_eq_length [OF m] by simp
  have "mset (map rank_key ?X) = image_mset rank_key (mset (map unranked ?X))"
    by (simp add: image_mset.compositionality comp_def)
  also have "\<dots> = image_mset rank_key (mset (map unranked ?X'))"
    by (simp only: m)
  also have "\<dots> = mset (map rank_key ?X')"
    by (simp add: image_mset.compositionality comp_def)
  finally have k: "map rank_key ?X = map rank_key ?X'"
    using sorted_division_teams [OF srt, of ks1 ks2 rows d]
      sorted_division_teams [OF srt, of ks1' ks2' rows d]
    by (intro sorted_same_mset_keys)
  have p: "map Position ?X = map Position ?X'"
    by (simp only: Position_division_teams [OF srt] len)
  show ?thesis
  proof (rule nth_equalityI)
    show "length (map (\<lambda>s. (Wins s, Losses s, Position s)) ?X) =
          length (map (\<lambda>s. (Wins s, Losses s, Position s)) ?X')"
      using len by simp
  next
    fix i assume "i < length (map (\<lambda>s. (Wins s, Losses s, Position s)) ?X)"
    then have i: "i < length ?X" "i < length ?X'"
      using len by simp_all
    have "map rank_key ?X ! i = map rank_key ?X' ! i" "map Position ?X ! i = map Position ?X' ! i"
      by (simp_all only: k p)
    then have "rank_key (?X ! i) = rank_key (?X' ! i)" "Position (?X ! i) = Position (?X' ! i)"
      using i by simp_all
    then show "map (\<lambda>s. (Wins s, Losses s, Position s)) ?X ! i =
               map (\<lambda>s. (Wins s, Losses s, Position s)) ?X' ! i"
      using i by (simp add: rank_key_def)
  qed
qed

lemma standings_divisions:
  assumes "range_order (teamStats_of rows) ks2"
  shows "map DivisionData.Division (standings srt ks1 ks2 rows) =
       filter (\<lambda>d. \<exists>t\<in>dom (teamStats_of rows). division_of t = d)
         [''EAST'', ''WEST'', ''NORTH'', ''SOUTH'']"
proof -
  have ks: "set ks2 = dom (teamStats_of rows)"
    using assms by (simp add: range_order_def)
  show ?thesis
    unfolding standings_eq map_map comp_def ks divisions_def
    by (auto simp: image_iff eq_commute)
qed

section \<open>Facts about the concrete snapshots\<close>

lemma dom_teamStats_AB:
  "dom (teamStats_of [gA, gB]) =
     {''Vienna Vikings'', ''Prague Lions'', ''Wroclaw Panthers'', ''Rhein Fire''}"
  by (auto simp: teamStats_of_eq played_def dom_tally_game gA_def gB_def)

lemma range_order_ksAB: "range_order (teamStats_of [gA, gB]) ksAB"
  unfolding range_order_def dom_teamStats_AB by (auto simp: ksAB_def)

lemma range_order_ksBA: "range_order (teamStats_of [gA, gB]) ksBA"
  unfolding range_order_def dom_teamStats_AB by (auto simp: ksBA_def)

lemma division_of_teams:
  "division_of ''Vienna Vikings'' = ''EAST''"
  "division_of ''Prague Lions'' = ''EAST''"
  "division_of ''Wroclaw Panthers'' = ''EAST''"
  "division_of ''Rhein Fire'' = ''NORTH''"
  "division_of ''Manchester United'' = ''UNKNOWN''"
  "division_of ''Liverpool'' = ''UNKNOWN''"
  by code_simp+

lemma dom_teamStats_AT:
  "dom (teamStats_of [gA, gT]) = {''Vienna Vikings'', ''Prague Lions''}"
  by (auto simp: teamStats_of_eq played_def dom_tally_game gA_def gT_def)

lemma range_order_ksA: "range_order (teamStats_of [gA, gT]) ksA"
  unfolding range_order_def dom_teamStats_AT by (auto simp: ksA_def)

lemma dom_teamStats_ACD:
  "dom (teamStats_of [gA, gC, gD]) = {''Vienna Vikings'', ''Prague Lions'', ''Wroclaw Panthers''}"
  by (auto simp: teamStats_of_eq played_def dom_tally_game gA_def gC_def gD_def)

lemma range_order_ksACD: "range_order (teamStats_of [gA, gC, gD]) ksACD"
  unfolding range_order_def dom_teamStats_ACD by (auto simp: ksACD_def)

lemma spec_SoS_ACD: "spec_SoS (filter played [gA, gC, gD]) ''Vienna Vikings'' = 1 / 2"
  by code_simp

lemma spec_SoV_ACD: "spec_SoV (filter played [gA, gC, gD]) ''Vienna Vikings'' = 1 / 2"
  by code_simp

lemma row1_before_rowB: "(Date row1, Time row1) \<le> (Date rowB, Time rowB)"
  by (simp add: row1_def rowB_def less_eq_prod_def)

lemma query_played_AB: "query_played [row1, rowB] = [gA, gB]"
  using row1_before_rowB
  by (simp add: query_played_def order_by_date_time_def played_row_def game_of_row_def gA_def gB_def)
     (simp add: row1_def rowB_def)

lemma dom_teamStats_S: "dom (teamStats_of [gS]) = {''Vienna Vikings''}"
  by (auto simp: teamStats_of_eq played_def dom_tally_game gS_def)

lemma played_games_12B: "played_games [row1, row2, rowB] = [gA, gB]"
  by (simp add: played_games_def game_of_row_def row1_def row2_def rowB_def gA_def gB_def)

lemma spec_wins_AB: "spec_wins [gA, gB] ''Vienna Vikings'' = 1"
  by (simp add: spec_wins_def won_by_def gA_def gB_def)

section \<open>The standings\<close>

text \<open>
  C5. The games the standings are computed from are exactly the records with a positive
  home or away score. In the scan: the slice \<open>games\<close>, over which the sums of strength
  of schedule and strength of victory run, holds the rows with a positive score and no
  other; every team's wins and losses are the numbers of those rows it won and lost;
  and a row with two zero scores can be added or removed anywhere without changing the
  tallies, the slice or the standings. In the handler, from the table: a game is in
  the slice if and only if it is a record of the table with a positive score, with the
  same multiplicity; every team's wins and losses count the played records of the
  table it won and lost; and the four sums of every team run over the played records
  of the table, and over no other.
\<close>

theorem unplayed_games_excluded:
  "(\<forall>g. g \<in> set (games_of rows) \<longleftrightarrow> g \<in> set rows \<and> (homeScore g > 0 \<or> awayScore g > 0)) \<and>
   games_of rows = filter played rows \<and>
   teamStats_of rows = foldl (\<lambda>m g. tally_game g m) Map.empty (filter played rows) \<and>
   (homeScore z = 0 \<and> awayScore z = 0 \<longrightarrow>
      games_of (xs @ z # ys) = games_of (xs @ ys) \<and>
      teamStats_of (xs @ z # ys) = teamStats_of (xs @ ys) \<and>
      standings srt ks1 ks2 (xs @ z # ys) = standings srt ks1 ks2 (xs @ ys)) \<and>
   standings srt ks1 ks2 rows = standings srt ks1 ks2 (filter played rows) \<and>
   getScoreboard srt ks1 ks2 q t = getScoreboard srt ks1 ks2 q (filter played_row t) \<and>
   (\<forall>k. wins (stats_at (teamStats_of rows) k) = spec_wins (filter played rows) k \<and>
        losses (stats_at (teamStats_of rows) k) = spec_losses (filter played rows) k) \<and>
   (\<forall>g. g \<in> set (games_of (query_played t)) \<longleftrightarrow>
        (\<exists>r\<in>set t. g = game_of_row r \<and> (HomeScore r > 0 \<or> AwayScore r > 0))) \<and>
   mset (games_of (query_played t)) = mset (played_games t) \<and>
   (\<forall>k. wins (stats_at (teamStats_of (query_played t)) k) = spec_wins (played_games t) k \<and>
        losses (stats_at (teamStats_of (query_played t)) k) = spec_losses (played_games t) k \<and>
        opponentWins (opponent_sums (teamStats_of (query_played t)) (games_of (query_played t)) k) =
          sum_list (map (\<lambda>g. spec_wins (played_games t) (opponent_in k g))
                      (filter (plays_in k) (played_games t))) \<and>
        opponentLosses (opponent_sums (teamStats_of (query_played t)) (games_of (query_played t)) k) =
          sum_list (map (\<lambda>g. spec_losses (played_games t) (opponent_in k g))
                      (filter (plays_in k) (played_games t))) \<and>
        defeatedOpponentWins (opponent_sums (teamStats_of (query_played t)) (games_of (query_played t)) k) =
          sum_list (map (\<lambda>g. spec_wins (played_games t) (opponent_in k g))
                      (filter (counted_win k) (played_games t))) \<and>
        defeatedOpponentLosses (opponent_sums (teamStats_of (query_played t)) (games_of (query_played t)) k) =
          sum_list (map (\<lambda>g. spec_losses (played_games t) (opponent_in k g))
                      (filter (counted_win k) (played_games t))))"
proof -
  have A: "\<forall>g. g \<in> set (games_of rows) \<longleftrightarrow> g \<in> set rows \<and> (homeScore g > 0 \<or> awayScore g > 0)"
    by (auto simp: games_of_eq played_def)
  have B: "games_of rows = filter played rows"
    by (rule games_of_eq)
  have C: "teamStats_of rows = foldl (\<lambda>m g. tally_game g m) Map.empty (filter played rows)"
    by (rule teamStats_of_eq)
  have D: "homeScore z = 0 \<and> awayScore z = 0 \<longrightarrow>
      games_of (xs @ z # ys) = games_of (xs @ ys) \<and>
      teamStats_of (xs @ z # ys) = teamStats_of (xs @ ys) \<and>
      standings srt ks1 ks2 (xs @ z # ys) = standings srt ks1 ks2 (xs @ ys)"
  proof
    assume z: "homeScore z = 0 \<and> awayScore z = 0"
    then have "filter played (xs @ z # ys) = filter played (xs @ ys)"
      by (simp add: played_def)
    then have "scan_rows (xs @ z # ys) = scan_rows (xs @ ys)"
      by (metis scan_rows_filter_played)
    then show "games_of (xs @ z # ys) = games_of (xs @ ys) \<and>
      teamStats_of (xs @ z # ys) = teamStats_of (xs @ ys) \<and>
      standings srt ks1 ks2 (xs @ z # ys) = standings srt ks1 ks2 (xs @ ys)"
      by (simp add: standings_def games_of_def teamStats_of_def)
  qed
  have E: "standings srt ks1 ks2 rows = standings srt ks1 ks2 (filter played rows)"
    by (simp add: standings_def games_of_def teamStats_of_def scan_rows_filter_played)
  have F: "getScoreboard srt ks1 ks2 q t = getScoreboard srt ks1 ks2 q (filter played_row t)"
    by (simp add: getScoreboard_def query_played_filter)
  have G: "\<forall>k. wins (stats_at (teamStats_of rows) k) = spec_wins (filter played rows) k \<and>
        losses (stats_at (teamStats_of rows) k) = spec_losses (filter played rows) k"
    by (simp only: wins_teamStats_of losses_teamStats_of simp_thms)
  have "set (games_of (query_played t)) = set (played_games t)"
    using arg_cong [OF mset_query_played, of set_mset, of t]
    by (simp only: games_of_query_played set_mset_mset)
  then have H: "\<forall>g. g \<in> set (games_of (query_played t)) \<longleftrightarrow>
        (\<exists>r\<in>set t. g = game_of_row r \<and> (HomeScore r > 0 \<or> AwayScore r > 0))"
    by (auto simp: played_games_def)
  have I: "mset (games_of (query_played t)) = mset (played_games t)"
    by (simp only: games_of_query_played mset_query_played)
  have J: "\<forall>k. wins (stats_at (teamStats_of (query_played t)) k) = spec_wins (played_games t) k \<and>
        losses (stats_at (teamStats_of (query_played t)) k) = spec_losses (played_games t) k \<and>
        opponentWins (opponent_sums (teamStats_of (query_played t)) (games_of (query_played t)) k) =
          sum_list (map (\<lambda>g. spec_wins (played_games t) (opponent_in k g))
                      (filter (plays_in k) (played_games t))) \<and>
        opponentLosses (opponent_sums (teamStats_of (query_played t)) (games_of (query_played t)) k) =
          sum_list (map (\<lambda>g. spec_losses (played_games t) (opponent_in k g))
                      (filter (plays_in k) (played_games t))) \<and>
        defeatedOpponentWins (opponent_sums (teamStats_of (query_played t)) (games_of (query_played t)) k) =
          sum_list (map (\<lambda>g. spec_wins (played_games t) (opponent_in k g))
                      (filter (counted_win k) (played_games t))) \<and>
        defeatedOpponentLosses (opponent_sums (teamStats_of (query_played t)) (games_of (query_played t)) k) =
          sum_list (map (\<lambda>g. spec_losses (played_games t) (opponent_in k g))
                      (filter (counted_win k) (played_games t)))"
    by (intro allI conjI wins_query_played opponent_sums_query_played)
  from A B C D E F G H I J show ?thesis
    by (intro conjI)
qed

theorem unplayed_games_excluded_witness:
  "games_of [gA, gZ, gB] = [gA, gB] \<and>
   teamStats_of [gA, gZ, gB] = teamStats_of [gA, gB] \<and>
   standings insertionSort ksAB ksAB [gA, gZ, gB] = standings insertionSort ksAB ksAB [gA, gB] \<and>
   mset (games_of (query_played [row1, row2, rowB])) = {#gA, gB#} \<and>
   wins (stats_at (teamStats_of (query_played [row1, row2, rowB])) ''Vienna Vikings'') = 1"
proof -
  have p: "filter played [gA, gZ, gB] = [gA, gB]"
    by (simp add: played_def gA_def gZ_def gB_def)
  have z: "homeScore gZ = 0 \<and> awayScore gZ = 0"
    by (simp add: gZ_def)
  note u = unplayed_games_excluded
      [of "[gA, gZ, gB]" gZ "[gA]" "[gB]" insertionSort ksAB ksAB False "[row1, row2, rowB]"]
  have "games_of [gA, gZ, gB] = [gA, gB]"
    using u by (simp only: p)
  moreover have "teamStats_of ([gA] @ gZ # [gB]) = teamStats_of ([gA] @ [gB]) \<and>
    standings insertionSort ksAB ksAB ([gA] @ gZ # [gB]) =
    standings insertionSort ksAB ksAB ([gA] @ [gB])"
    using u z by blast
  moreover have "mset (games_of (query_played [row1, row2, rowB])) = mset (played_games [row1, row2, rowB])"
    using u by blast
  moreover have "wins (stats_at (teamStats_of (query_played [row1, row2, rowB])) ''Vienna Vikings'') =
      spec_wins (played_games [row1, row2, rowB]) ''Vienna Vikings''"
    using u by blast
  ultimately show ?thesis
    by (simp only: append_Cons append_Nil played_games_12B spec_wins_AB mset.simps simp_thms)
qed

text \<open>
  C6. One iteration of the scan on a played game: the game joins the slice \<open>games\<close>;
  when the scores differ, the side with the higher score has one win more and the
  other side one loss more than before, every other team is as before (and, the two
  sides being different teams, so are the winner's losses and the loser's wins); when
  the scores are equal, the tallies are unchanged.
\<close>

theorem played_game_tallied:
  assumes "homeScore g > 0 \<or> awayScore g > 0"
  shows "fst (scan_row (gs, m) g) = gs @ [g] \<and>
    (homeScore g > awayScore g \<longrightarrow>
       wins (stats_at (snd (scan_row (gs, m) g)) (homeTeam g)) = wins (stats_at m (homeTeam g)) + 1 \<and>
       losses (stats_at (snd (scan_row (gs, m) g)) (awayTeam g)) = losses (stats_at m (awayTeam g)) + 1) \<and>
    (awayScore g > homeScore g \<longrightarrow>
       wins (stats_at (snd (scan_row (gs, m) g)) (awayTeam g)) = wins (stats_at m (awayTeam g)) + 1 \<and>
       losses (stats_at (snd (scan_row (gs, m) g)) (homeTeam g)) = losses (stats_at m (homeTeam g)) + 1) \<and>
    (homeScore g = awayScore g \<longrightarrow> snd (scan_row (gs, m) g) = m) \<and>
    (\<forall>t. t \<noteq> homeTeam g \<and> t \<noteq> awayTeam g \<longrightarrow> snd (scan_row (gs, m) g) t = m t) \<and>
    (homeTeam g \<noteq> awayTeam g \<and> homeScore g > awayScore g \<longrightarrow>
       losses (stats_at (snd (scan_row (gs, m) g)) (homeTeam g)) = losses (stats_at m (homeTeam g)) \<and>
       wins (stats_at (snd (scan_row (gs, m) g)) (awayTeam g)) = wins (stats_at m (awayTeam g))) \<and>
    (homeTeam g \<noteq> awayTeam g \<and> awayScore g > homeScore g \<longrightarrow>
       losses (stats_at (snd (scan_row (gs, m) g)) (awayTeam g)) = losses (stats_at m (awayTeam g)) \<and>
       wins (stats_at (snd (scan_row (gs, m) g)) (homeTeam g)) = wins (stats_at m (homeTeam g)))"
proof -
  have s: "scan_row (gs, m) g = (gs @ [g], tally_game g m)"
    using assms by (simp add: scan_row_def)
  have f: "\<forall>t. t \<noteq> homeTeam g \<and> t \<noteq> awayTeam g \<longrightarrow> tally_game g m t = m t"
    by (simp add: tally_game_def add_win_def add_loss_def)
  have t: "homeScore g = awayScore g \<longrightarrow> tally_game g m = m"
    by (simp add: tally_game_def)
  show ?thesis
    unfolding s fst_conv snd_conv wins_tally_game losses_tally_game
    using f t by (auto simp: won_by_def lost_by_def)
qed

theorem played_game_tallied_witness:
  "wins (stats_at (snd (scan_row ([], Map.empty) gA)) ''Vienna Vikings'') = 1 \<and>
   losses (stats_at (snd (scan_row ([], Map.empty) gA)) ''Prague Lions'') = 1 \<and>
   snd (scan_row ([gA], Map.empty) gT) = Map.empty"
proof -
  have a: "homeScore gA > 0 \<or> awayScore gA > 0" "homeScore gA > awayScore gA"
    "homeTeam gA = ''Vienna Vikings''" "awayTeam gA = ''Prague Lions''"
    by (simp_all add: gA_def)
  have t: "homeScore gT > 0 \<or> awayScore gT > 0" "homeScore gT = awayScore gT"
    by (simp_all add: gT_def)
  show ?thesis
    using played_game_tallied [OF a(1), of "[]" Map.empty]
      played_game_tallied [OF t(1), of "[gA]" Map.empty] a(2-) t(2)
    by simp
qed

text \<open>
  C7. For every sorter that keeps the promise of \<open>sort.Slice\<close> and every order in
  which Go visits the keys of \<open>teamStats\<close>: the divisions are emitted in the order
  EAST, WEST, NORTH, SOUTH, those without a team left out; the slice of an emitted
  division is not empty, holds the teams of that division that have a tally, is
  sorted by wins descending and then by losses ascending, and its positions count
  from one; and the same divisions are emitted in the same order for any other
  arrangement of the same rows.
\<close>

theorem standings_sorted_and_ranked:
  assumes "sort_Slice_ok srt" and "range_order (teamStats_of rows) ks2"
  shows
    "map DivisionData.Division (standings srt ks1 ks2 rows) =
       filter (\<lambda>d. \<exists>t\<in>dom (teamStats_of rows). division_of t = d)
         [''EAST'', ''WEST'', ''NORTH'', ''SOUTH''] \<and>
     (\<forall>dd\<in>set (standings srt ks1 ks2 rows).
        Teams dd \<noteq> [] \<and>
        sorted_wrt (\<lambda>a b. Wins a > Wins b \<or> (Wins a = Wins b \<and> Losses a \<le> Losses b)) (Teams dd) \<and>
        map Position (Teams dd) = map int [1..<length (Teams dd) + 1] \<and>
        TeamName ` set (Teams dd) =
          {t \<in> dom (teamStats_of rows). division_of t = DivisionData.Division dd}) \<and>
     (\<forall>rows' ks1' ks2'. set rows' = set rows \<and> range_order (teamStats_of rows') ks2' \<longrightarrow>
        map DivisionData.Division (standings srt ks1' ks2' rows') =
        map DivisionData.Division (standings srt ks1 ks2 rows))"
proof -
  have ks: "set ks2 = dom (teamStats_of rows)"
    using assms(2) by (simp add: range_order_def)
  have 1: "map DivisionData.Division (standings srt ks1 ks2 rows) =
       filter (\<lambda>d. \<exists>t\<in>dom (teamStats_of rows). division_of t = d)
         [''EAST'', ''WEST'', ''NORTH'', ''SOUTH'']"
    by (rule standings_divisions [OF assms(2)])
  have 2: "Teams dd \<noteq> [] \<and>
        sorted_wrt (\<lambda>a b. Wins a > Wins b \<or> (Wins a = Wins b \<and> Losses a \<le> Losses b)) (Teams dd) \<and>
        map Position (Teams dd) = map int [1..<length (Teams dd) + 1] \<and>
        TeamName ` set (Teams dd) =
          {t \<in> dom (teamStats_of rows). division_of t = DivisionData.Division dd}"
    if "dd \<in> set (standings srt ks1 ks2 rows)" for dd
  proof -
    from that obtain d where d: "d \<in> division_of ` set ks2"
      and dd: "dd = \<lparr>DivisionData.Division = d, Teams = division_teams srt ks1 ks2 rows d\<rparr>"
      unfolding set_standings by auto
    have ne: "filter (\<lambda>k. division_of k = d) ks2 \<noteq> []"
      using d by (auto simp: filter_empty_conv)
    have "Teams dd \<noteq> []"
      using ne length_division_teams [OF assms(1), of ks1 ks2 rows d] by (auto simp: dd)
    moreover have "sorted_wrt (\<lambda>a b. Wins a > Wins b \<or> (Wins a = Wins b \<and> Losses a \<le> Losses b)) (Teams dd)"
      using sorted_division_teams [OF assms(1), of ks1 ks2 rows d]
      by (simp add: dd sorted_rank_key_words)
    moreover have "map Position (Teams dd) = map int [1..<length (Teams dd) + 1]"
      using Position_division_teams [OF assms(1), of ks1 ks2 rows d] by (simp add: dd)
    moreover have "TeamName ` set (Teams dd) =
          {t \<in> dom (teamStats_of rows). division_of t = DivisionData.Division dd}"
      using TeamName_division_teams [OF assms(1), of ks1 ks2 rows d] by (simp add: dd ks)
    ultimately show ?thesis by blast
  qed
  have 3: "map DivisionData.Division (standings srt ks1' ks2' rows') =
        map DivisionData.Division (standings srt ks1 ks2 rows)"
    if "set rows' = set rows \<and> range_order (teamStats_of rows') ks2'" for rows' ks1' ks2'
  proof -
    have "dom (teamStats_of rows') = dom (teamStats_of rows)"
      using that by (simp add: dom_teamStats_of)
    then show ?thesis
      using that by (simp add: 1 standings_divisions [of rows' ks2' srt ks1'])
  qed
  from 1 2 3 show ?thesis by blast
qed

theorem standings_sorted_and_ranked_witness:
  "map DivisionData.Division (standings insertionSort ksAB ksAB [gA, gB]) = [''EAST'', ''NORTH''] \<and>
   sorted_wrt (\<lambda>a b. Wins a > Wins b \<or> (Wins a = Wins b \<and> Losses a \<le> Losses b))
     (Teams (hd (standings insertionSort ksAB ksAB [gA, gB]))) \<and>
   map Position (Teams (hd (standings insertionSort ksAB ksAB [gA, gB]))) =
     map int [1..<length (Teams (hd (standings insertionSort ksAB ksAB [gA, gB]))) + 1]"
proof -
  note t = standings_sorted_and_ranked [OF sort_Slice_ok_insertionSort range_order_ksAB, of ksAB]
  have d: "map DivisionData.Division (standings insertionSort ksAB ksAB [gA, gB]) = [''EAST'', ''NORTH'']"
    using t by (simp add: dom_teamStats_AB division_of_teams)
  then have "hd (standings insertionSort ksAB ksAB [gA, gB]) \<in> set (standings insertionSort ksAB ksAB [gA, gB])"
    by (cases "standings insertionSort ksAB ksAB [gA, gB]") simp_all
  with t d show ?thesis by blast
qed

text \<open>
  C10. A team whose played games all ended with equal scores has no entry in
  \<open>teamStats\<close> and appears in no emitted division, although each of those games is in
  the slice \<open>games\<close> that the strength loops of its opponents run over.
\<close>

theorem team_with_only_ties_absent:
  assumes "sort_Slice_ok srt" and "range_order (teamStats_of rows) ks2"
    and "\<forall>g\<in>set rows. (homeScore g > 0 \<or> awayScore g > 0) \<and> (homeTeam g = t \<or> awayTeam g = t)
           \<longrightarrow> homeScore g = awayScore g"
  shows "teamStats_of rows t = None \<and>
         t \<notin> (\<Union>dd\<in>set (standings srt ks1 ks2 rows). TeamName ` set (Teams dd)) \<and>
         (\<forall>g\<in>set rows. (homeScore g > 0 \<or> awayScore g > 0) \<and> (homeTeam g = t \<or> awayTeam g = t)
            \<longrightarrow> g \<in> set (games_of rows))"
proof -
  have "t \<notin> dom (teamStats_of rows)"
    using assms(3) by (auto simp: dom_teamStats_of played_def plays_in_def)
  moreover from this have "t \<notin> (\<Union>dd\<in>set (standings srt ks1 ks2 rows). TeamName ` set (Teams dd))"
    unfolding TeamNames_standings [OF assms(1,2)] by simp
  moreover have "\<forall>g\<in>set rows. (homeScore g > 0 \<or> awayScore g > 0) \<and> (homeTeam g = t \<or> awayTeam g = t)
            \<longrightarrow> g \<in> set (games_of rows)"
    by (simp add: games_of_eq played_def)
  ultimately show ?thesis by blast
qed

theorem team_with_only_ties_absent_witness:
  "teamStats_of [gA, gT] ''Munich Ravens'' = None \<and>
   ''Munich Ravens'' \<notin> (\<Union>dd\<in>set (standings insertionSort ksA ksA [gA, gT]). TeamName ` set (Teams dd)) \<and>
   gT \<in> set (games_of [gA, gT])"
proof -
  have h: "\<forall>g\<in>set [gA, gT]. (homeScore g > 0 \<or> awayScore g > 0) \<and>
             (homeTeam g = ''Munich Ravens'' \<or> awayTeam g = ''Munich Ravens'')
           \<longrightarrow> homeScore g = awayScore g"
    by (simp add: gA_def gT_def)
  have g: "(homeScore gT > 0 \<or> awayScore gT > 0) \<and>
             (homeTeam gT = ''Munich Ravens'' \<or> awayTeam gT = ''Munich Ravens'')"
    by (simp add: gT_def)
  show ?thesis
    using team_with_only_ties_absent [OF sort_Slice_ok_insertionSort range_order_ksA h, of ksA] g
    by simp
qed

text \<open>
  C1 fails on the code. A team that is missing from \<open>teamDivisions\<close> gets the division
  UNKNOWN and a tally, but the final loop of \<open>getScoreboard\<close> runs over EAST, WEST,
  NORTH and SOUTH only: on a table whose one played game is between two unmapped
  teams the handler emits no division at all.
\<close>

theorem unmapped_teams_not_emitted:
  "division_of ''Manchester United'' = ''UNKNOWN'' \<and>
   teamStats_of (query_played [rowU]) ''Manchester United'' = Some \<lparr>wins = 1, losses = 0\<rparr> \<and>
   range_order (teamStats_of (query_played [rowU])) ksU \<and>
   getScoreboard insertionSort ksU ksU False [rowU] = StatusOK []"
proof -
  have q: "query_played [rowU] =
      [\<lparr>homeTeam = ''Manchester United'', awayTeam = ''Liverpool'', homeScore = 2, awayScore = 1\<rparr>]"
    by (simp add: query_played_def order_by_date_time_def played_row_def game_of_row_def rowU_def)
  have d: "division_of ''Manchester United'' = ''UNKNOWN''" "division_of ''Liverpool'' = ''UNKNOWN''"
    by (rule division_of_teams)+
  have s: "teamStats_of (query_played [rowU]) ''Manchester United'' = Some \<lparr>wins = 1, losses = 0\<rparr>"
    unfolding q
    by (simp add: teamStats_of_eq played_def tally_game_def add_win_def add_loss_def stats_at_def)
  have r: "range_order (teamStats_of (query_played [rowU])) ksU"
    unfolding q range_order_def
    by (auto simp: teamStats_of_eq played_def dom_tally_game ksU_def)
  have "standings insertionSort ksU ksU (query_played [rowU]) = []"
    unfolding standings_eq
    by (simp add: ksU_def d divisions_def)
  then show ?thesis
    using d s r by (simp add: getScoreboard_def)
qed

text \<open>
  C4, as stated, fails for strength of victory: the loop over \<open>games\<close> asks
  \<open>game.homeTeam == teamName\<close> first and looks at the away side only otherwise, so a
  game with the same team on both sides that the away side won is not counted among
  the team's victories, although it gave the team a win. On the single game Vienna
  Vikings against Vienna Vikings, 1:3, the team has one win and one loss, its strength
  of victory is stored as zero, and the ratio over the games it won is one half.
\<close>

theorem strength_of_victory_counterexample:
  "range_order (teamStats_of [gS]) ksS \<and>
   teamStats_of [gS] ''Vienna Vikings'' = Some \<lparr>wins = 1, losses = 1\<rparr> \<and>
   snd (strength_loop (teamStats_of [gS]) (games_of [gS]) ksS) ''Vienna Vikings'' = Some 0 \<and>
   spec_SoV (filter played [gS]) ''Vienna Vikings'' = 1 / 2 \<and>
   snd (strength_loop (teamStats_of [gS]) (games_of [gS]) ksS) ''Vienna Vikings'' \<noteq>
     Some (spec_SoV (filter played [gS]) ''Vienna Vikings'')"
proof -
  have r: "range_order (teamStats_of [gS]) ksS"
    unfolding range_order_def dom_teamStats_S by (simp add: ksS_def)
  have t: "teamStats_of [gS] ''Vienna Vikings'' = Some \<lparr>wins = 1, losses = 1\<rparr>"
    by (simp add: teamStats_of_eq played_def tally_game_def add_win_def add_loss_def stats_at_def gS_def)
  have v: "snd (strength_loop (teamStats_of [gS]) (games_of [gS]) ksS) ''Vienna Vikings'' = Some 0"
    by (simp add: strength_loop_at opponent_sums_fields games_of_eq played_def counted_win_def
        ratio_def ksS_def gS_def)
  have s: "spec_SoV (filter played [gS]) ''Vienna Vikings'' = 1 / 2"
    by code_simp
  from r t v s show ?thesis by simp
qed

text \<open>
  C4, amended. For every team with a tally, the value stored in \<open>teamSoS\<close> is the sum
  of its opponents' win counts over the sum of their win and loss counts, taken over
  the played games of the team (zero when the latter sum is zero). The value stored in
  \<open>teamSoV\<close> is the same ratio over the games the loop counts as the team's
  victories: those it won as the home side, and those it won as the away side when it
  is not the home side as well. That is the ratio over the games the team won (zero
  when it won none) unless some game has the team on both sides with the higher away
  score. The emitted standings carry these values.
\<close>

theorem strength_of_schedule_and_victory:
  assumes "sort_Slice_ok srt"
    and "range_order (teamStats_of rows) ks1"
    and "range_order (teamStats_of rows) ks2"
  shows
    "(\<forall>t\<in>dom (teamStats_of rows).
        fst (strength_loop (teamStats_of rows) (games_of rows) ks1) t =
          Some (spec_SoS (filter played rows) t) \<and>
        snd (strength_loop (teamStats_of rows) (games_of rows) ks1) t =
          Some (spec_ratio (filter played rows)
                  (map (opponent_in t) (filter (counted_win t) (filter played rows)))) \<and>
        ((\<forall>g\<in>set rows. homeTeam g = t \<and> awayTeam g = t \<longrightarrow> awayScore g \<le> homeScore g) \<longrightarrow>
         snd (strength_loop (teamStats_of rows) (games_of rows) ks1) t =
           Some (spec_SoV (filter played rows) t))) \<and>
     (\<forall>dd\<in>set (standings srt ks1 ks2 rows). \<forall>s\<in>set (Teams dd).
        SoS s = spec_SoS (filter played rows) (TeamName s) \<and>
        SoV s = spec_ratio (filter played rows)
                  (map (opponent_in (TeamName s))
                     (filter (counted_win (TeamName s)) (filter played rows))) \<and>
        ((\<forall>g\<in>set rows. homeTeam g = TeamName s \<and> awayTeam g = TeamName s
              \<longrightarrow> awayScore g \<le> homeScore g) \<longrightarrow>
         SoV s = spec_SoV (filter played rows) (TeamName s)))"
proof -
  have k1: "set ks1 = dom (teamStats_of rows)" and k2: "set ks2 = dom (teamStats_of rows)"
    using assms(2,3) by (simp_all add: range_order_def)
  have maps: "fst (strength_loop (teamStats_of rows) (games_of rows) ks1) t =
          Some (spec_SoS (filter played rows) t) \<and>
        snd (strength_loop (teamStats_of rows) (games_of rows) ks1) t =
          Some (spec_ratio (filter played rows)
                  (map (opponent_in t) (filter (counted_win t) (filter played rows)))) \<and>
        ((\<forall>g\<in>set rows. homeTeam g = t \<and> awayTeam g = t \<longrightarrow> awayScore g \<le> homeScore g) \<longrightarrow>
         snd (strength_loop (teamStats_of rows) (games_of rows) ks1) t =
           Some (spec_SoV (filter played rows) t))"
    if "t \<in> dom (teamStats_of rows)" for t
    using that teamSoS_spec [of t ks1 rows] teamSoV_counted [of t ks1 rows]
      spec_SoV_counted [of rows t]
    by (simp add: k1)
  have out: "SoS s = spec_SoS (filter played rows) (TeamName s) \<and>
        SoV s = spec_ratio (filter played rows)
                  (map (opponent_in (TeamName s))
                     (filter (counted_win (TeamName s)) (filter played rows))) \<and>
        ((\<forall>g\<in>set rows. homeTeam g = TeamName s \<and> awayTeam g = TeamName s
              \<longrightarrow> awayScore g \<le> homeScore g) \<longrightarrow>
         SoV s = spec_SoV (filter played rows) (TeamName s))"
    if "dd \<in> set (standings srt ks1 ks2 rows)" and "s \<in> set (Teams dd)" for dd s
  proof -
    from that obtain d where "s \<in> set (division_teams srt ks1 ks2 rows d)"
      unfolding set_standings by auto
    then obtain k where k: "k \<in> set ks2"
      and u: "unranked s = unranked (standing_of (teamStats_of rows)
               (fst (strength_loop (teamStats_of rows) (games_of rows) ks1))
               (snd (strength_loop (teamStats_of rows) (games_of rows) ks1)) k)"
      by (rule standing_in_division_teams [OF assms(1)])
    have "TeamName s = TeamName (unranked s)" "SoS s = SoS (unranked s)" "SoV s = SoV (unranked s)"
      by simp_all
    then have n: "TeamName s = k"
      and a: "SoS s = float_at (fst (strength_loop (teamStats_of rows) (games_of rows) ks1)) k"
      and b: "SoV s = float_at (snd (strength_loop (teamStats_of rows) (games_of rows) ks1)) k"
      unfolding u by simp_all
    have "k \<in> dom (teamStats_of rows)"
      using k by (simp only: k2)
    from maps [OF this]
    have "float_at (fst (strength_loop (teamStats_of rows) (games_of rows) ks1)) k =
            spec_SoS (filter played rows) k \<and>
          float_at (snd (strength_loop (teamStats_of rows) (games_of rows) ks1)) k =
            spec_ratio (filter played rows)
              (map (opponent_in k) (filter (counted_win k) (filter played rows))) \<and>
          ((\<forall>g\<in>set rows. homeTeam g = k \<and> awayTeam g = k \<longrightarrow> awayScore g \<le> homeScore g) \<longrightarrow>
           float_at (snd (strength_loop (teamStats_of rows) (games_of rows) ks1)) k =
             spec_SoV (filter played rows) k)"
      by (auto simp only: float_at_def option.case)
    then show ?thesis
      unfolding n a b .
  qed
  from maps out show ?thesis by blast
qed

theorem strength_of_schedule_and_victory_witness:
  "fst (strength_loop (teamStats_of [gA, gC, gD]) (games_of [gA, gC, gD]) ksACD) ''Vienna Vikings''
     = Some (1 / 2) \<and>
   snd (strength_loop (teamStats_of [gA, gC, gD]) (games_of [gA, gC, gD]) ksACD) ''Vienna Vikings''
     = Some (1 / 2)"
proof -
  have h: "\<forall>g\<in>set [gA, gC, gD]. homeTeam g = ''Vienna Vikings'' \<and> awayTeam g = ''Vienna Vikings''
              \<longrightarrow> awayScore g \<le> homeScore g"
    by (simp add: gA_def gC_def gD_def)
  have d: "''Vienna Vikings'' \<in> dom (teamStats_of [gA, gC, gD])"
    by (simp add: dom_teamStats_ACD)
  from strength_of_schedule_and_victory
      [OF sort_Slice_ok_insertionSort range_order_ksACD range_order_ksACD] d h
  have "fst (strength_loop (teamStats_of [gA, gC, gD]) (games_of [gA, gC, gD]) ksACD) ''Vienna Vikings''
          = Some (spec_SoS (filter played [gA, gC, gD]) ''Vienna Vikings'') \<and>
        snd (strength_loop (teamStats_of [gA, gC, gD]) (games_of [gA, gC, gD]) ksACD) ''Vienna Vikings''
          = Some (spec_SoV (filter played [gA, gC, gD]) ''Vienna Vikings'')"
    by blast
  then show ?thesis
    by (simp only: spec_SoS_ACD spec_SoV_ACD)
qed

text \<open>
  C3, as stated, fails: the order in which Go's \<open>range\<close> visits the keys of
  \<open>teamStats\<close> is not specified and the comparison has no tie-break, so two teams of
  one division with equal wins and losses are ranked in the order of the visit. With
  insertion sort, which \<open>sort.Slice\<close> runs on slices this short, two orders of visit
  give different outputs on the same table.
\<close>

theorem standings_order_counterexample:
  "range_order (teamStats_of (query_played [row1, rowB])) ksAB \<and>
   range_order (teamStats_of (query_played [row1, rowB])) ksBA \<and>
   getScoreboard insertionSort ksAB ksAB False [row1, rowB] \<noteq>
   getScoreboard insertionSort ksAB ksBA False [row1, rowB]"
proof -
  have a: "map (map TeamName \<circ> Teams) (standings insertionSort ksAB ksAB [gA, gB]) =
      [[''Vienna Vikings'', ''Wroclaw Panthers'', ''Prague Lions''], [''Rhein Fire'']]"
    by code_simp
  have b: "map (map TeamName \<circ> Teams) (standings insertionSort ksAB ksBA [gA, gB]) =
      [[''Wroclaw Panthers'', ''Vienna Vikings'', ''Prague Lions''], [''Rhein Fire'']]"
    by code_simp
  have "standings insertionSort ksAB ksAB [gA, gB] \<noteq> standings insertionSort ksAB ksBA [gA, gB]"
  proof
    assume "standings insertionSort ksAB ksAB [gA, gB] = standings insertionSort ksAB ksBA [gA, gB]"
    with a b have "[[''Vienna Vikings'', ''Wroclaw Panthers'', ''Prague Lions''], [''Rhein Fire'']] =
      [[''Wroclaw Panthers'', ''Vienna Vikings'', ''Prague Lions''], [''Rhein Fire'']]"
      by simp
    then show False by simp
  qed
  then show ?thesis
    by (simp add: getScoreboard_def query_played_AB range_order_ksAB range_order_ksBA)
qed

text \<open>
  C3, amended. Two calls on the same rows, whatever the orders of visit, emit the
  same divisions in the same order; the slices of a division agree as multisets of
  standings without positions (so each team has the same wins, losses, record,
  strength of schedule and strength of victory), they show the same sequence of wins,
  losses and positions, and a team that shares its wins and losses with no other team
  of its division has the same standing, position included, in both.
\<close>

theorem standings_determined_up_to_ties:
  assumes "sort_Slice_ok srt"
    and "range_order (teamStats_of rows) ks1" and "range_order (teamStats_of rows) ks2"
    and "range_order (teamStats_of rows) ks1'" and "range_order (teamStats_of rows) ks2'"
  shows "list_all2 same_up_to_ties (standings srt ks1 ks2 rows) (standings srt ks1' ks2' rows)"
proof -
  have s: "set ks2 = set ks2'"
    using assms(3,5) by (simp add: range_order_def)
  have "same_up_to_ties
          \<lparr>DivisionData.Division = d, Teams = division_teams srt ks1 ks2 rows d\<rparr>
          \<lparr>DivisionData.Division = d, Teams = division_teams srt ks1' ks2' rows d\<rparr>" for d
  proof -
    note m = mset_division_teams_range_order [OF assms, of d]
    note k = keys_division_teams_range_order [OF assms(1) m]
    show ?thesis
      unfolding same_up_to_ties_def
      using m k untied_same_rank [OF m k] by simp
  qed
  then show ?thesis
    unfolding standings_eq s
    by (simp add: list.rel_map list.rel_refl)
qed

theorem standings_determined_up_to_ties_witness:
  "list_all2 same_up_to_ties
     (standings insertionSort ksAB ksAB [gA, gB]) (standings insertionSort ksBA ksBA [gA, gB])"
  by (rule standings_determined_up_to_ties
      [OF sort_Slice_ok_insertionSort range_order_ksAB range_order_ksAB
          range_order_ksBA range_order_ksBA])

section \<open>The store under \<open>fetchSchedule\<close>\<close>

lemma set_insert_loop: "set (insert_loop fails i ss t) \<subseteq> set t \<union> set ss"
  by (induction fails i ss t rule: insert_loop.induct) (auto simp: sql_replace_def)

lemma set_insert_loop_succeeded:
  "set (insert_loop fails i ss t) \<subseteq> set t \<union> {ss ! j |j. j < length ss \<and> \<not> fails (i + j)}"
proof (induction fails i ss t rule: insert_loop.induct)
  case (1 fails i t)
  show ?case by simp
next
  case (2 fails i s ss t)
  have step: "{ss ! j |j. j < length ss \<and> \<not> fails (Suc i + j)} \<subseteq>
              {(s # ss) ! j |j. j < length (s # ss) \<and> \<not> fails (i + j)}"
  proof
    fix x assume "x \<in> {ss ! j |j. j < length ss \<and> \<not> fails (Suc i + j)}"
    then obtain j where "x = ss ! j" "j < length ss" "\<not> fails (Suc i + j)" by blast
    then have "x = (s # ss) ! Suc j \<and> Suc j < length (s # ss) \<and> \<not> fails (i + Suc j)" by simp
    then show "x \<in> {(s # ss) ! j |j. j < length (s # ss) \<and> \<not> fails (i + j)}" by blast
  qed
  have head: "\<not> fails i \<Longrightarrow> s \<in> {(s # ss) ! j |j. j < length (s # ss) \<and> \<not> fails (i + j)}"
  proof -
    assume "\<not> fails i"
    then have "s = (s # ss) ! 0 \<and> 0 < length (s # ss) \<and> \<not> fails (i + 0)" by simp
    then show ?thesis by blast
  qed
  have t': "set (if fails i then t else sql_replace s t) \<subseteq>
        set t \<union> {(s # ss) ! j |j. j < length (s # ss) \<and> \<not> fails (i + j)}"
    using head by (auto simp: sql_replace_def)
  show ?case
    using "2.IH" step t' unfolding insert_loop.simps by blast
qed

lemma insert_loop_keeps:
  assumes "r \<in> set t" and "\<forall>j<length ss. \<not> fails (i + j) \<longrightarrow> StatcrewID (ss ! j) \<noteq> StatcrewID r"
  shows "r \<in> set (insert_loop fails i ss t)"
  using assms
proof (induction fails i ss t rule: insert_loop.induct)
  case (1 fails i t)
  then show ?case by simp
next
  case (2 fails i s ss t)
  have a: "r \<in> set (if fails i then t else sql_replace s t)"
    using "2.prems"(1) "2.prems"(2) [rule_format, of 0] by (auto simp: sql_replace_def)
  have b: "\<forall>j<length ss. \<not> fails (Suc i + j) \<longrightarrow> StatcrewID (ss ! j) \<noteq> StatcrewID r"
    using "2.prems"(2) by (metis add_Suc_shift Suc_less_eq length_Cons nth_Cons_Suc)
  show ?case
    unfolding insert_loop.simps by (rule "2.IH" [OF a b])
qed

lemma insert_loop_installs:
  assumes "j < length ss" and "\<not> fails (i + j)"
    and "\<forall>k<length ss. j < k \<and> \<not> fails (i + k) \<longrightarrow> StatcrewID (ss ! k) \<noteq> StatcrewID (ss ! j)"
  shows "ss ! j \<in> set (insert_loop fails i ss t)"
  using assms
proof (induction fails i ss t arbitrary: j rule: insert_loop.induct)
  case (1 fails i t)
  then show ?case by simp
next
  case (2 fails i s ss t)
  show ?case
  proof (cases j)
    case 0
    have a: "s \<in> set (if fails i then t else sql_replace s t)"
      using "2.prems"(2) 0 by (simp add: sql_replace_def)
    have b: "\<forall>k<length ss. \<not> fails (Suc i + k) \<longrightarrow> StatcrewID (ss ! k) \<noteq> StatcrewID s"
    proof (intro allI impI)
      fix k assume "k < length ss" "\<not> fails (Suc i + k)"
      then have "Suc k < length (s # ss)" "j < Suc k \<and> \<not> fails (i + Suc k)"
        using 0 by simp_all
      then have "StatcrewID ((s # ss) ! Suc k) \<noteq> StatcrewID ((s # ss) ! j)"
        using "2.prems"(3) by blast
      then show "StatcrewID (ss ! k) \<noteq> StatcrewID s" using 0 by simp
    qed
    show ?thesis
      unfolding insert_loop.simps using insert_loop_keeps [OF a b] 0 by simp
  next
    case (Suc j')
    have 1: "j' < length ss" and 2: "\<not> fails (Suc i + j')"
      using "2.prems"(1,2) Suc by simp_all
    have 3: "\<forall>k<length ss. j' < k \<and> \<not> fails (Suc i + k) \<longrightarrow> StatcrewID (ss ! k) \<noteq> StatcrewID (ss ! j')"
    proof (intro allI impI)
      fix k assume "k < length ss" "j' < k \<and> \<not> fails (Suc i + k)"
      then have "Suc k < length (s # ss)" "j < Suc k \<and> \<not> fails (i + Suc k)"
        using Suc by simp_all
      then have "StatcrewID ((s # ss) ! Suc k) \<noteq> StatcrewID ((s # ss) ! j)"
        using "2.prems"(3) by blast
      then show "StatcrewID (ss ! k) \<noteq> StatcrewID (ss ! j')" using Suc by simp
    qed
    show ?thesis
      unfolding insert_loop.simps using "2.IH" [OF 1 2 3] Suc by simp
  qed
qed

lemma fetchSchedule_twice:
  "fetchSchedule unmarshal http faults (fetchSchedule unmarshal http faults t) =
   fetchSchedule unmarshal http faults t"
  by (simp add: fetchSchedule_def sql_delete_all_def Let_def
      split: http_outcome.splits option.splits)

text \<open>
  C9. When the response has status 200 and a body that decodes to the empty slice, and
  the \<open>DELETE\<close> statement does not fail, \<open>fetchSchedule\<close> leaves the table empty,
  whatever it held before: the rows are deleted and the insert loop is skipped.
\<close>

theorem fetchSchedule_empty_feed_clears_store:
  assumes "body \<noteq> []" and "unmarshal body = Some []" and "\<not> delete_fails faults"
  shows "fetchSchedule unmarshal (Response 200 (Some body)) faults t = []"
  using assms by (simp add: fetchSchedule_def sql_delete_all_def)

theorem fetchSchedule_empty_feed_clears_store_witness:
  "fetchSchedule (\<lambda>b. if b = ''[]'' then Some [] else None) (Response 200 (Some ''[]''))
     no_faults [row1, row2] = []"
  using fetchSchedule_empty_feed_clears_store
    [of "''[]''" "\<lambda>b. if b = ''[]'' then Some [] else None" no_faults "[row1, row2]"]
  by (simp add: no_faults_def)

text \<open>
  C8. Running \<open>fetchSchedule\<close> a second time on the same response (with the same
  statements failing, in particular with none failing) leaves the table, and so what
  \<open>getSchedule\<close> reads from it, as the first run left it.
\<close>

theorem replaceAll_idempotent:
  "getSchedule q (fetchSchedule unmarshal http faults (fetchSchedule unmarshal http faults t)) =
   getSchedule q (fetchSchedule unmarshal http faults t)"
  by (simp only: fetchSchedule_twice)

theorem replaceAll_idempotent_witness:
  "getSchedule False (fetchSchedule (\<lambda>b. Some [row2, row1]) (Response 200 (Some ''x'')) no_faults
      (fetchSchedule (\<lambda>b. Some [row2, row1]) (Response 200 (Some ''x'')) no_faults []))
   = StatusOK [row1, row2]"
proof -
  have "getSchedule False
          (fetchSchedule (\<lambda>b. Some [row2, row1]) (Response 200 (Some ''x'')) no_faults [])
        = StatusOK [row1, row2]"
    by code_simp
  then show ?thesis
    by (simp only: replaceAll_idempotent)
qed

text \<open>
  C2, as stated, fails: the replace is a \<open>DELETE\<close> followed by separate inserts, with
  no transaction around them. When the \<open>DELETE\<close> has succeeded and \<open>Prepare\<close> fails,
  the table that held \<open>row1\<close> is left empty.
\<close>

theorem replace_not_atomic_counterexample:
  "fetchSchedule (\<lambda>b. Some [row2]) (Response 200 (Some ''x''))
     \<lparr>delete_fails = False, prepare_fails = True, exec_fails = (\<lambda>i. False)\<rparr> [row1] \<noteq> [row1]"
  by (simp add: fetchSchedule_def sql_delete_all_def)

text \<open>
  C2, amended. The prior snapshot stays intact when the \<open>DELETE\<close> itself fails. Once
  the \<open>DELETE\<close> has succeeded the prior rows are gone: the table then holds only
  records of the decoded response whose \<open>Exec\<close> did not fail, none at all when
  \<open>Prepare\<close> fails, and otherwise every record whose \<open>Exec\<close> succeeded and whose
  key no later successful \<open>Exec\<close> wrote again.
\<close>

theorem fetchSchedule_store_failures:
  "(delete_fails faults \<longrightarrow> fetchSchedule unmarshal http faults t = t) \<and>
   (\<not> delete_fails faults \<and> http = Response 200 (Some body) \<and> body \<noteq> [] \<and>
      unmarshal body = Some schedules \<longrightarrow>
        set (fetchSchedule unmarshal http faults t) \<subseteq> set schedules \<and>
        (prepare_fails faults \<longrightarrow> fetchSchedule unmarshal http faults t = []) \<and>
        set (fetchSchedule unmarshal http faults t) \<subseteq>
          {schedules ! j |j. j < length schedules \<and> \<not> exec_fails faults j} \<and>
        (\<not> prepare_fails faults \<longrightarrow>
           (\<forall>j<length schedules. \<not> exec_fails faults j \<and>
              (\<forall>k<length schedules. j < k \<and> \<not> exec_fails faults k \<longrightarrow>
                 StatcrewID (schedules ! k) \<noteq> StatcrewID (schedules ! j))
              \<longrightarrow> schedules ! j \<in> set (fetchSchedule unmarshal http faults t))))"
proof -
  have A: "delete_fails faults \<longrightarrow> fetchSchedule unmarshal http faults t = t"
    by (auto simp: fetchSchedule_def split: http_outcome.splits option.splits)
  have B: "set (fetchSchedule unmarshal http faults t) \<subseteq> set schedules \<and>
        (prepare_fails faults \<longrightarrow> fetchSchedule unmarshal http faults t = []) \<and>
        set (fetchSchedule unmarshal http faults t) \<subseteq>
          {schedules ! j |j. j < length schedules \<and> \<not> exec_fails faults j} \<and>
        (\<not> prepare_fails faults \<longrightarrow>
           (\<forall>j<length schedules. \<not> exec_fails faults j \<and>
              (\<forall>k<length schedules. j < k \<and> \<not> exec_fails faults k \<longrightarrow>
                 StatcrewID (schedules ! k) \<noteq> StatcrewID (schedules ! j))
              \<longrightarrow> schedules ! j \<in> set (fetchSchedule unmarshal http faults t)))"
    if h: "\<not> delete_fails faults \<and> http = Response 200 (Some body) \<and> body \<noteq> [] \<and>
      unmarshal body = Some schedules"
  proof -
    have e: "fetchSchedule unmarshal http faults t =
       (if schedules = [] \<or> prepare_fails faults then []
        else insert_loop (exec_fails faults) 0 schedules [])"
      using h by (auto simp: fetchSchedule_def sql_delete_all_def Let_def)
    have s: "set (insert_loop (exec_fails faults) 0 schedules []) \<subseteq>
          {schedules ! j |j. j < length schedules \<and> \<not> exec_fails faults j}"
      using set_insert_loop_succeeded [of "exec_fails faults" 0 schedules "[]"] by simp
    have 1: "set (fetchSchedule unmarshal http faults t) \<subseteq>
          {schedules ! j |j. j < length schedules \<and> \<not> exec_fails faults j}"
      using s by (simp add: e)
    have "{schedules ! j |j. j < length schedules \<and> \<not> exec_fails faults j} \<subseteq> set schedules"
      by auto
    with 1 have 2: "set (fetchSchedule unmarshal http faults t) \<subseteq> set schedules"
      by (rule subset_trans)
    have 3: "prepare_fails faults \<longrightarrow> fetchSchedule unmarshal http faults t = []"
      by (simp add: e)
    have 4: "schedules ! j \<in> set (fetchSchedule unmarshal http faults t)"
      if "\<not> prepare_fails faults" "j < length schedules" "\<not> exec_fails faults j"
        "\<forall>k<length schedules. j < k \<and> \<not> exec_fails faults k \<longrightarrow>
                 StatcrewID (schedules ! k) \<noteq> StatcrewID (schedules ! j)" for j
    proof -
      have "schedules \<noteq> []" using that(2) by auto
      then show ?thesis
        using insert_loop_installs [of j schedules "exec_fails faults" 0 "[]"] that
        by (simp add: e)
    qed
    from 1 2 3 4 show ?thesis by blast
  qed
  from A B show ?thesis by blast
qed


theorem fetchSchedule_store_failures_witness:
  "fetchSchedule (\<lambda>b. Some [row2]) (Response 200 (Some ''x''))
     \<lparr>delete_fails = True, prepare_fails = False, exec_fails = (\<lambda>i. False)\<rparr> [row1] = [row1] \<and>
   fetchSchedule (\<lambda>b. Some [row2]) (Response 200 (Some ''x''))
     \<lparr>delete_fails = False, prepare_fails = True, exec_fails = (\<lambda>i. False)\<rparr> [row1] = [] \<and>
   set (fetchSchedule (\<lambda>b. Some [row1, row2]) (Response 200 (Some ''x''))
     \<lparr>delete_fails = False, prepare_fails = False, exec_fails = (\<lambda>i. i = 0)\<rparr> [rowB]) \<subseteq> {row2} \<and>
   row2 \<in> set (fetchSchedule (\<lambda>b. Some [row1, row2]) (Response 200 (Some ''x''))
     \<lparr>delete_fails = False, prepare_fails = False, exec_fails = (\<lambda>i. i = 0)\<rparr> [rowB])"
proof -
  let ?F = "\<lparr>delete_fails = False, prepare_fails = False, exec_fails = (\<lambda>i. i = (0::nat))\<rparr>"
  have a: "fetchSchedule (\<lambda>b. Some [row2]) (Response 200 (Some ''x''))
     \<lparr>delete_fails = True, prepare_fails = False, exec_fails = (\<lambda>i. False)\<rparr> [row1] = [row1]"
    using fetchSchedule_store_failures
      [of "\<lparr>delete_fails = True, prepare_fails = False, exec_fails = (\<lambda>i. False)\<rparr>"
          "\<lambda>b. Some [row2]" "Response 200 (Some ''x'')" "[row1]" "''x''" "[row2]"]
    by simp
  have b: "fetchSchedule (\<lambda>b. Some [row2]) (Response 200 (Some ''x''))
     \<lparr>delete_fails = False, prepare_fails = True, exec_fails = (\<lambda>i. False)\<rparr> [row1] = []"
    using fetchSchedule_store_failures
      [of "\<lparr>delete_fails = False, prepare_fails = True, exec_fails = (\<lambda>i. False)\<rparr>"
          "\<lambda>b. Some [row2]" "Response 200 (Some ''x'')" "[row1]" "''x''" "[row2]"]
    by simp
  note t = fetchSchedule_store_failures
      [of ?F "\<lambda>b. Some [row1, row2]" "Response 200 (Some ''x'')" "[rowB]" "''x''" "[row1, row2]"]
  have s: "{[row1, row2] ! j |j. j < length [row1, row2] \<and> \<not> exec_fails ?F j} = {row2}"
    by (auto simp: less_Suc_eq nth_Cons')
  have c: "set (fetchSchedule (\<lambda>b. Some [row1, row2]) (Response 200 (Some ''x'')) ?F [rowB]) \<subseteq> {row2}"
    using t unfolding s by simp
  have "[row1, row2] ! 1 \<in> set (fetchSchedule (\<lambda>b. Some [row1, row2]) (Response 200 (Some ''x'')) ?F [rowB])"
    using t by (simp add: less_Suc_eq)
  then have d: "row2 \<in> set (fetchSchedule (\<lambda>b. Some [row1, row2]) (Response 200 (Some ''x'')) ?F [rowB])"
    by simp
  from a b c d show ?thesis by (intro conjI)
qed

end
